theory Spec2Isabelle
  imports Complex_Main "HOL-Library.Signed_Division"
begin

unbundle bit_operations_syntax

section \<open>VFader: soft takeover, gang propagation and MIDI encoding\<close>

text \<open>
  The VFader plug-in keeps 32 virtual faders and, once per control tick, turns them into
  MIDI control-change messages. The functions embedded here are \<open>applyDriftControl\<close>,
  \<open>snapToActiveNote\<close>, \<open>snapToValueRange\<close>, \<open>step\<close> and \<open>parameterChanged\<close>.

  Numbers. The source computes in C \<open>float\<close>. The embedding reads every \<open>float\<close> as a
  real number: comparisons, clamps and branch conditions are those of the source, arithmetic
  is exact, and the rounding of binary32 is not represented. A cast \<open>(int)x\<close> truncates
  toward zero. Values of type \<open>uint8_t\<close> are natural numbers; a narrowing cast is written
  \<open>mod 256\<close>. The only decrements of an \<open>uint8_t\<close> in the embedded code are guarded by
  \<open>> 0\<close>, so no wrap-around is lost.

  State. The record \<open>VFader\<close> holds the members of \<open>struct VFader\<close> that the embedded
  functions read or write; display, name-editing and debug members are left out, and so are
  \<open>stepCounter\<close> and \<open>uiActive\<close>, which \<open>step\<close> updates but nothing embedded here reads.
  The parameter array \<open>self->v\<close> of the host is the field \<open>param_v\<close>.
\<close>

subsection \<open>Numeric helpers\<close>

type_synonym c_float = real

definition c_int :: "real \<Rightarrow> int" where
  "c_int x = (if 0 \<le> x then \<lfloor>x\<rfloor> else \<lceil>x\<rceil>)"

definition u8 :: "int \<Rightarrow> nat" where
  "u8 x = nat (x mod 256)"

subsection \<open>Data\<close>

record FaderNoteSettings =
  displayMode :: nat
  sharpFlat :: nat
  bottomMidi :: nat
  topMidi :: nat
  bottomValue :: nat
  topValue :: nat
  chromaticScale :: "nat list"
  controlAllCount :: nat
  controlAllMode :: nat

record VFader =
  internalFaders :: "c_float list"
  lastMidiValues :: "c_float list"
  physicalFaderPos :: "c_float list"
  lastPhysicalPos :: "c_float list"
  pickupPivot :: "c_float list"
  pickupStartValue :: "c_float list"
  inPickupMode :: "bool list"
  inSlewMode :: "bool list"
  slewTarget :: "c_float list"
  pickupSettleFrames :: "nat list"
  send14bitPhase :: bool
  endpointHoldCounter :: "nat list"
  faderNoteSettings :: "FaderNoteSettings list"
  faderReferenceValues :: "c_float list"
  lastGangValues :: "c_float list"
  param_v :: "int list"

text \<open>The parameter indices of the source's anonymous enum.\<close>

definition kParamFader1 :: nat where "kParamFader1 = 0"
definition kParamFader8 :: nat where "kParamFader8 = 7"
definition kParamPage :: nat where "kParamPage = 8"
definition kParamMidiMode :: nat where "kParamMidiMode = 9"
definition kParamPickupMode :: nat where "kParamPickupMode = 10"
definition kParamPotControl :: nat where "kParamPotControl = 11"
definition kParamDriftControl :: nat where "kParamDriftControl = 12"
definition kNumParameters :: nat where "kNumParameters = 37"

text \<open>
  A MIDI message is the three bytes handed to \<open>NT_sendMidi3ByteMessage\<close>: status, controller
  number, data value. The destination mask, a constant of the host API, is not recorded.
\<close>

type_synonym midi3 = "nat \<times> nat \<times> nat"

subsection \<open>Drift lock\<close>

text \<open>The \<open>switch\<close> of \<open>applyDriftControl\<close> that picks the dead-band.\<close>

definition driftThreshold :: "int \<Rightarrow> c_float" where
  "driftThreshold driftLevel =
     (if driftLevel = 1 then 0.005 else if driftLevel = 2 then 0.01 else 0.0)"

definition applyDriftControl :: "c_float \<Rightarrow> c_float \<Rightarrow> int \<Rightarrow> c_float" where
  "applyDriftControl newValue lockedValue driftLevel =
     (if driftLevel = 0 then newValue
      else let threshold = driftThreshold driftLevel in
        if lockedValue < 0.0 then newValue
        else if \<bar>newValue - lockedValue\<bar> > threshold then newValue
        else lockedValue)"

subsection \<open>Quantisers of the encoder\<close>

text \<open>
  \<open>snapToActiveNote\<close> first collects, in ascending order, the MIDI notes from \<open>bottomMidi\<close>
  to \<open>topMidi\<close> (and at most 127) whose pitch class is switched on.
\<close>

definition activeNotes :: "FaderNoteSettings \<Rightarrow> int list" where
  "activeNotes settings =
     map int (filter (\<lambda>midi. chromaticScale settings ! (midi mod 12) = 1)
       [bottomMidi settings ..< Suc (min (topMidi settings) 127)])"

definition snapToActiveNote :: "c_float \<Rightarrow> FaderNoteSettings \<Rightarrow> int" where
  "snapToActiveNote faderValue settings =
     (let notes = activeNotes settings; numActive = length notes in
      if numActive = 0 then int (bottomMidi settings)
      else if numActive = 1 then notes ! 0
      else if faderValue \<le> 0.05 then notes ! 0
      else if faderValue \<ge> 0.95 then notes ! (numActive - 1)
      else
        let adjustedValue = (faderValue - 0.05) / 0.9;
            floatIndex = adjustedValue * real (numActive - 1);
            index0 = c_int (floatIndex + 0.5);
            index1 = (if index0 < 0 then 0 else index0);
            index2 = (if index1 \<ge> int numActive then int numActive - 1 else index1)
        in notes ! nat index2)"

definition snapToValueRange :: "c_float \<Rightarrow> FaderNoteSettings \<Rightarrow> int" where
  "snapToValueRange faderValue settings =
     (if faderValue \<le> 0.05 then int (bottomValue settings)
      else if faderValue \<ge> 0.95 then int (topValue settings)
      else
        let adjustedValue = (faderValue - 0.05) / 0.9;
            range = int (topValue settings) - int (bottomValue settings);
            scaledValue0 = int (bottomValue settings) + c_int (adjustedValue * real_of_int range + 0.5);
            scaledValue1 = (if scaledValue0 < int (bottomValue settings)
                            then int (bottomValue settings) else scaledValue0)
        in if scaledValue1 > int (topValue settings) then int (topValue settings)
           else scaledValue1)"

subsection \<open>Gang propagation (first loop of \<open>step\<close>)\<close>

text \<open>
  The loop over \<open>k\<close> that computes the reference band of leader \<open>i\<close> in Absolute mode.
  A nested leader is skipped with \<open>continue\<close>; the loop goes on behind it.
\<close>

function minmaxLoop ::
  "VFader \<Rightarrow> nat \<Rightarrow> nat \<Rightarrow> nat \<Rightarrow> c_float \<times> c_float \<Rightarrow> c_float \<times> c_float" where
  "minmaxLoop a i childCount k (minRef, maxRef) =
     (if k \<le> childCount \<and> i + k < 32 then
        let checkIdx = i + k in
        if controlAllCount (faderNoteSettings a ! checkIdx) > 0
        then minmaxLoop a i childCount (k + 1) (minRef, maxRef)
        else
          let checkRef = faderReferenceValues a ! checkIdx;
              minRef' = (if checkRef < minRef then checkRef else minRef);
              maxRef' = (if checkRef > maxRef then checkRef else maxRef)
          in minmaxLoop a i childCount (k + 1) (minRef', maxRef')
      else (minRef, maxRef))"
  by pat_completeness auto
termination
  by (relation "measure (\<lambda>(a, i, childCount, k, r). 32 - (i + k))") auto

text \<open>The value a follower with reference \<open>refValue\<close> gets, before and after the clamp.\<close>

definition childNewValue :: "nat \<Rightarrow> c_float \<Rightarrow> c_float \<Rightarrow> c_float \<Rightarrow> c_float" where
  "childNewValue mode gangValue gangLogical refValue =
     (if mode = 0 then
        let shift = gangLogical - 0.5 in refValue + shift
      else if gangValue \<le> 0.5 then
        let scaleFactor = gangValue / 0.5 in refValue * scaleFactor
      else
        let t = (gangValue - 0.5) / 0.5 in refValue + ((1.0 - refValue) * t))"

definition clamp01 :: "c_float \<Rightarrow> c_float" where
  "clamp01 x = (let y = (if x < 0.0 then 0.0 else x) in if y > 1.0 then 1.0 else y)"

text \<open>The body of the loop over \<open>j\<close> for a child that is not itself a leader.\<close>

definition childWrite :: "VFader \<Rightarrow> nat \<Rightarrow> nat \<Rightarrow> c_float \<Rightarrow> c_float \<Rightarrow> VFader" where
  "childWrite a childIdx mode gangValue gangLogical =
     (let refValue = faderReferenceValues a ! childIdx;
          newValue = clamp01 (childNewValue mode gangValue gangLogical refValue);
          a1 = a\<lparr>internalFaders := (internalFaders a)[childIdx := newValue]\<rparr>
      in if mode = 1
         then a1\<lparr>faderReferenceValues := (faderReferenceValues a1)[childIdx := newValue]\<rparr>
         else a1)"

text \<open>The loop over \<open>j\<close> that writes the followers of leader \<open>i\<close>.\<close>

function childLoop ::
  "VFader \<Rightarrow> nat \<Rightarrow> nat \<Rightarrow> nat \<Rightarrow> c_float \<Rightarrow> c_float \<Rightarrow> nat \<Rightarrow> VFader" where
  "childLoop a i childCount mode gangValue gangLogical j =
     (if j \<le> childCount \<and> i + j < 32 then
        let childIdx = i + j in
        if controlAllCount (faderNoteSettings a ! childIdx) > 0
        then childLoop a i childCount mode gangValue gangLogical (j + 1)
        else childLoop (childWrite a childIdx mode gangValue gangLogical)
               i childCount mode gangValue gangLogical (j + 1)
      else a)"
  by pat_completeness auto
termination
  by (relation "measure (\<lambda>(a, i, childCount, mode, gangValue, gangLogical, j). 32 - (i + j))") auto

definition gangChanged :: "VFader \<Rightarrow> nat \<Rightarrow> bool" where
  "gangChanged a i =
     (let gangValue = internalFaders a ! i; lastGangValue = lastGangValues a ! i
      in lastGangValue < 0.0 \<or> \<bar>gangValue - lastGangValue\<bar> > 0.001)"

text \<open>The reference band and the logical gang value of Absolute mode.\<close>

definition gangBand :: "VFader \<Rightarrow> nat \<Rightarrow> c_float \<times> c_float" where
  "gangBand a i =
     (if controlAllMode (faderNoteSettings a ! i) = 0
      then minmaxLoop a i (controlAllCount (faderNoteSettings a ! i)) 1 (1.0, 0.0)
      else (1.0, 0.0))"

definition gangLogicalOf :: "VFader \<Rightarrow> nat \<Rightarrow> c_float" where
  "gangLogicalOf a i =
     (if controlAllMode (faderNoteSettings a ! i) = 0 then
        let (minRef, maxRef) = gangBand a i;
            gangValue = internalFaders a ! i;
            gangLogicalMin = 0.5 - maxRef;
            gangLogicalMax = 0.5 + (1.0 - minRef)
        in gangLogicalMin + (gangValue * (gangLogicalMax - gangLogicalMin))
      else 0.0)"

text \<open>The body of the outer loop for one index \<open>i\<close>.\<close>

definition gangLeader :: "VFader \<Rightarrow> nat \<Rightarrow> VFader" where
  "gangLeader a i =
     (if controlAllCount (faderNoteSettings a ! i) > 0 then
        let gangValue = internalFaders a ! i in
        if gangChanged a i then
          let childCount = controlAllCount (faderNoteSettings a ! i);
              mode = controlAllMode (faderNoteSettings a ! i);
              gangLogical = gangLogicalOf a i;
              a1 = childLoop a i childCount mode gangValue gangLogical 1
          in a1\<lparr>lastGangValues := (lastGangValues a1)[i := gangValue]\<rparr>
        else a
      else a)"

definition gangPass :: "VFader \<Rightarrow> VFader" where
  "gangPass a = fold (\<lambda>i s. gangLeader s i) [0..<32] a"

subsection \<open>Value encoder (second part of \<open>step\<close>)\<close>

text \<open>\<open>midiChannel\<close> is the local constant of \<open>step\<close>; the status byte is computed from it.\<close>

definition midiChannel :: nat where
  "midiChannel = 1"

definition statusByte :: nat where
  "statusByte = 0xB0 OR (midiChannel - 1)"

text \<open>The data byte of 7-bit mode, for a channel in Note mode or in Number mode.\<close>

definition midiValue7 :: "c_float \<Rightarrow> FaderNoteSettings \<Rightarrow> nat" where
  "midiValue7 currentValue settings =
     (if displayMode settings = 1 then u8 (snapToActiveNote currentValue settings)
      else
        let scaledValue = snapToValueRange currentValue settings;
            midiValue = u8 ((scaledValue * 127) sdiv 100)
        in if midiValue > 127 then 127 else midiValue)"

text \<open>The body of the 7-bit loop for channel \<open>i\<close>: the new state and the messages sent.\<close>

definition encode7 :: "int \<Rightarrow> nat \<Rightarrow> VFader \<Rightarrow> VFader \<times> midi3 list" where
  "encode7 driftLevel i a =
     (let rawValue = internalFaders a ! i;
          lastValue = lastMidiValues a ! i;
          currentValue = applyDriftControl rawValue lastValue driftLevel;
          firstSend = (lastValue < 0.0);
          valueChanged = (\<bar>currentValue - lastValue\<bar> > 0.001)
      in if firstSend \<or> valueChanged then
           let midiValue = midiValue7 currentValue (faderNoteSettings a ! i);
               ccNumber = u8 (int i + 1);
               status = statusByte
           in (a\<lparr>lastMidiValues := (lastMidiValues a)[i := currentValue]\<rparr>,
               [(status, ccNumber, midiValue)])
         else (a, []))"

text \<open>
  14-bit mode. \<open>snapEndpoint\<close> is the deadzone of Number mode with its flag \<open>isAtEndpoint\<close>;
  \<open>full14\<close> is the scaling to 0..16383 with its two clamps; \<open>half14\<close> splits \<open>full\<close> into
  MSB and LSB, clamps both and picks the message of the current phase. The source writes the
  last two twice, once for a changed value and once for a held endpoint.
\<close>

definition snapEndpoint :: "c_float \<Rightarrow> c_float \<times> bool" where
  "snapEndpoint currentValue =
     (let scaledValue = currentValue;
          isAtEndpoint = False;
          (scaledValue1, isAtEndpoint1) =
             (if scaledValue < 0.01 then (0.0, True) else (scaledValue, isAtEndpoint))
      in if scaledValue1 > 0.99 then (1.0, True) else (scaledValue1, isAtEndpoint1))"

definition full14 :: "c_float \<Rightarrow> int" where
  "full14 x =
     (let full = c_int (x * 16383.0 + 0.5);
          full1 = (if full > 16383 then 16383 else full)
      in if full1 < 0 then 0 else full1)"

definition half14 :: "bool \<Rightarrow> nat \<Rightarrow> int \<Rightarrow> midi3" where
  "half14 phase i full =
     (let msb = u8 (drop_bit 7 full);
          lsb = u8 (full AND 0x7F);
          msbCC = u8 (int i);
          lsbCC = u8 (int i + 32);
          msb1 = (if msb > 127 then 127 else msb);
          lsb1 = (if lsb > 127 then 127 else lsb)
      in if phase then (statusByte, lsbCC, lsb1) else (statusByte, msbCC, msb1))"

text \<open>The body of the 14-bit loop for channel \<open>i\<close>.\<close>

definition encode14 :: "int \<Rightarrow> nat \<Rightarrow> VFader \<Rightarrow> VFader \<times> midi3 list" where
  "encode14 driftLevel i a =
     (let rawValue = internalFaders a ! i;
          lastValue = lastMidiValues a ! i;
          currentValue = applyDriftControl rawValue lastValue driftLevel;
          firstSend = (lastValue < 0.0);
          valueChanged = (\<bar>currentValue - lastValue\<bar> > 0.001)
      in if firstSend \<or> valueChanged then
           let (full, a1) =
                 (if displayMode (faderNoteSettings a ! i) = 1 then
                    let noteValue = u8 (snapToActiveNote currentValue (faderNoteSettings a ! i))
                    in (push_bit 7 (int noteValue), a)
                  else
                    let (scaledValue, isAtEndpoint) = snapEndpoint currentValue;
                        a' = (if isAtEndpoint
                              then a\<lparr>endpointHoldCounter := (endpointHoldCounter a)[i := 3]\<rparr>
                              else a)
                    in (full14 scaledValue, a'));
               msg = half14 (send14bitPhase a1) i full;
               a2 = (if send14bitPhase a1
                     then a1\<lparr>lastMidiValues := (lastMidiValues a1)[i := currentValue]\<rparr>
                     else a1)
           in (a2, [msg])
         else if endpointHoldCounter a ! i > 0 then
           let a1 = a\<lparr>endpointHoldCounter :=
                       (endpointHoldCounter a)[i := endpointHoldCounter a ! i - 1]\<rparr>;
               heldValue = lastMidiValues a1 ! i;
               full = full14 heldValue
           in (a1, [half14 (send14bitPhase a1) i full])
         else (a, []))"

text \<open>The loop \<open>for (int i = 0; i < 32; ++i)\<close> around either body, collecting the messages.\<close>

definition encodeLoop ::
  "(nat \<Rightarrow> VFader \<Rightarrow> VFader \<times> midi3 list) \<Rightarrow> VFader \<Rightarrow> VFader \<times> midi3 list" where
  "encodeLoop enc a =
     fold (\<lambda>i (s, out). let (s', m) = enc i s in (s', out @ m)) [0..<32] (a, [])"

text \<open>One control tick: the new state and the messages sent, in order.\<close>

definition step :: "VFader \<Rightarrow> VFader \<times> midi3 list" where
  "step self =
     (let driftLevel = param_v self ! kParamDriftControl;
          a = gangPass self;
          midiMode = c_int (real_of_int (param_v self ! kParamMidiMode) + 0.5)
      in if midiMode = 0 then encodeLoop (encode7 driftLevel) a
         else
           let (a1, out) = encodeLoop (encode14 driftLevel) a
           in (a1\<lparr>send14bitPhase := \<not> send14bitPhase a1\<rparr>, out))"

subsection \<open>Pickup resolver (\<open>parameterChanged\<close>)\<close>

text \<open>
  The scaling of the raw parameter to \<open>[0,1]\<close> with its clamp, and the 3% deadzone that the
  source applies to the sample and, for comparison only, to the held value.
\<close>

definition deadzone :: "c_float \<Rightarrow> c_float" where
  "deadzone x = (if x < 0.03 then 0.0 else if x > 0.97 then 1.0 else x)"

definition physicalSample :: "int \<Rightarrow> c_float" where
  "physicalSample raw =
     (let v = real_of_int raw / 16383.0;
          v1 = (if v < 0.0 then 0.0 else if v > 1.0 then 1.0 else v)
      in deadzone v1)"

text \<open>The quantities computed before the tracking arrays are updated.\<close>

definition coarse :: "c_float \<Rightarrow> int" where
  "coarse x = c_int (x * 500.0 + 0.5)"

definition coarseMismatch :: "VFader \<Rightarrow> nat \<Rightarrow> c_float \<Rightarrow> int" where
  "coarseMismatch a internalIdx v =
     (let currentValueWithDeadzone = deadzone (internalFaders a ! internalIdx);
          coarsePhysical = coarse v;
          coarseCurrent = coarse currentValueWithDeadzone
      in \<bar>coarsePhysical - coarseCurrent\<bar>)"

definition movingContinuously :: "VFader \<Rightarrow> nat \<Rightarrow> c_float \<Rightarrow> bool" where
  "movingContinuously a internalIdx v =
     (let movementDelta = v - lastPhysicalPos a ! internalIdx
      in \<bar>movementDelta\<bar> > 0.001)"

definition sameDirection :: "VFader \<Rightarrow> nat \<Rightarrow> c_float \<Rightarrow> bool" where
  "sameDirection a internalIdx v =
     (let movementDelta = v - lastPhysicalPos a ! internalIdx
      in (movementDelta > 0 \<and> (v - physicalFaderPos a ! internalIdx) > 0)
         \<or> (movementDelta < 0 \<and> (v - physicalFaderPos a ! internalIdx) < 0))"

text \<open>
  The affine target of scaled pickup, with its clamp (the same two comparisons as
  \<open>clamp01\<close>). The source writes this block twice, in the Catch branch and in the Scaled
  branch.
\<close>

definition scaledTarget :: "c_float \<Rightarrow> c_float \<Rightarrow> c_float \<Rightarrow> c_float" where
  "scaledTarget v pivotPos startValue =
     (let physicalDelta = v - pivotPos;
          targetValue =
            (if physicalDelta > 0 then
               let physicalRange = 1.0 - pivotPos;
                   valueRange = 1.0 - startValue
               in if physicalRange > 0.001 then
                    let ratio = physicalDelta / physicalRange;
                        ratio1 = (if ratio > 1.0 then 1.0 else ratio)
                    in startValue + ratio1 * valueRange
                  else 1.0
             else if physicalDelta < 0 then
               let physicalRange = pivotPos;
                   valueRange = startValue
               in if physicalRange > 0.001 then
                    let ratio = - physicalDelta / physicalRange;
                        ratio1 = (if ratio > 1.0 then 1.0 else ratio)
                    in startValue - ratio1 * valueRange
                  else 0.0
             else startValue)
      in clamp01 targetValue)"

text \<open>The branch taken when the channel is not in pickup mode.\<close>

definition absoluteBranch ::
  "VFader \<Rightarrow> nat \<Rightarrow> c_float \<Rightarrow> c_float \<Rightarrow> int \<Rightarrow> bool \<Rightarrow> bool \<Rightarrow> VFader" where
  "absoluteBranch a internalIdx v currentValue mismatch moving sameDir =
     (let a1 = (if pickupSettleFrames a ! internalIdx > 0 then
                  if \<not> moving
                  then a\<lparr>pickupSettleFrames :=
                          (pickupSettleFrames a)[internalIdx := pickupSettleFrames a ! internalIdx - 1]\<rparr>
                  else a\<lparr>pickupSettleFrames := (pickupSettleFrames a)[internalIdx := 0]\<rparr>
                else a);
          bigMismatch = (mismatch > 50);
          smallMismatch = (mismatch > 5);
          shouldEnterPickup =
            (pickupSettleFrames a1 ! internalIdx = 0
             \<and> (bigMismatch \<or> (smallMismatch \<and> \<not> (moving \<and> sameDir))))
      in if shouldEnterPickup then
           a1\<lparr>inPickupMode := (inPickupMode a1)[internalIdx := True],
              pickupPivot := (pickupPivot a1)[internalIdx := v],
              pickupStartValue := (pickupStartValue a1)[internalIdx := currentValue]\<rparr>
         else a1\<lparr>internalFaders := (internalFaders a1)[internalIdx := v]\<rparr>)"

text \<open>The branch taken in pickup mode under the Catch policy.\<close>

definition catchBranch ::
  "VFader \<Rightarrow> nat \<Rightarrow> c_float \<Rightarrow> c_float \<Rightarrow> int \<Rightarrow> bool \<Rightarrow> bool \<Rightarrow> VFader" where
  "catchBranch a internalIdx v currentValue mismatch moving sameDir =
     (let closeEnoughToExit = (mismatch < 50) in
      if moving \<and> sameDir \<and> closeEnoughToExit then
        a\<lparr>internalFaders := (internalFaders a)[internalIdx := v],
          inPickupMode := (inPickupMode a)[internalIdx := False],
          inSlewMode := (inSlewMode a)[internalIdx := False],
          pickupPivot := (pickupPivot a)[internalIdx := - 1.0],
          pickupSettleFrames := (pickupSettleFrames a)[internalIdx := 0]\<rparr>
      else if mismatch < 25 then
        let a1 = (if \<not> inSlewMode a ! internalIdx
                  then a\<lparr>inSlewMode := (inSlewMode a)[internalIdx := True],
                         slewTarget := (slewTarget a)[internalIdx := v]\<rparr>
                  else a);
            slewRate = 0.005333;
            delta = v - currentValue
        in if mismatch < 2 then
             a1\<lparr>internalFaders := (internalFaders a1)[internalIdx := v],
                inPickupMode := (inPickupMode a1)[internalIdx := False],
                inSlewMode := (inSlewMode a1)[internalIdx := False],
                pickupPivot := (pickupPivot a1)[internalIdx := - 1.0],
                pickupSettleFrames := (pickupSettleFrames a1)[internalIdx := 5]\<rparr>
           else if delta > 0 then
             a1\<lparr>internalFaders :=
                  (internalFaders a1)[internalIdx := internalFaders a1 ! internalIdx + slewRate]\<rparr>
           else
             a1\<lparr>internalFaders :=
                  (internalFaders a1)[internalIdx := internalFaders a1 ! internalIdx - slewRate]\<rparr>
      else
        let pivotPos = pickupPivot a ! internalIdx;
            startValue = pickupStartValue a ! internalIdx;
            targetValue = scaledTarget v pivotPos startValue
        in a\<lparr>internalFaders := (internalFaders a)[internalIdx := targetValue]\<rparr>)"

text \<open>The branch taken in pickup mode under the Scaled policy.\<close>

definition scaledBranch :: "VFader \<Rightarrow> nat \<Rightarrow> c_float \<Rightarrow> VFader" where
  "scaledBranch a internalIdx v =
     (let pivotPos = pickupPivot a ! internalIdx;
          startValue = pickupStartValue a ! internalIdx;
          targetValue = scaledTarget v pivotPos startValue;
          outputMismatch = \<bar>v - targetValue\<bar>;
          caughtUp = (outputMismatch < 0.02)
      in if caughtUp then
           a\<lparr>inPickupMode := (inPickupMode a)[internalIdx := False],
             pickupPivot := (pickupPivot a)[internalIdx := - 1.0],
             internalFaders := (internalFaders a)[internalIdx := v]\<rparr>
         else a\<lparr>internalFaders := (internalFaders a)[internalIdx := targetValue]\<rparr>)"

text \<open>
  The loop over \<open>g\<close> at the end of \<open>parameterChanged\<close>: is the channel in the range of an
  earlier leader?
\<close>

definition isChild :: "VFader \<Rightarrow> nat \<Rightarrow> bool" where
  "isChild a internalIdx =
     list_ex (\<lambda>g. controlAllCount (faderNoteSettings a ! g) > 0
                 \<and> internalIdx \<ge> g + 1
                 \<and> internalIdx \<le> g + controlAllCount (faderNoteSettings a ! g))
       [0..<internalIdx]"

text \<open>
  The update of the two tracking arrays before the branches, and the tail of
  \<open>parameterChanged\<close> after them: the sample is stored once more, and a channel in the
  range of an earlier leader that is not in pickup mode re-anchors its gang reference.
\<close>

definition trackPhysical :: "VFader \<Rightarrow> nat \<Rightarrow> c_float \<Rightarrow> VFader" where
  "trackPhysical a internalIdx v =
     (let a1 = a\<lparr>lastPhysicalPos :=
                   (lastPhysicalPos a)[internalIdx := physicalFaderPos a ! internalIdx]\<rparr>
      in a1\<lparr>physicalFaderPos := (physicalFaderPos a1)[internalIdx := v]\<rparr>)"

definition finishResolve :: "VFader \<Rightarrow> nat \<Rightarrow> c_float \<Rightarrow> VFader" where
  "finishResolve a internalIdx v =
     (let a1 = a\<lparr>physicalFaderPos := (physicalFaderPos a)[internalIdx := v]\<rparr>
      in if isChild a1 internalIdx \<and> \<not> inPickupMode a1 ! internalIdx
         then a1\<lparr>faderReferenceValues :=
                  (faderReferenceValues a1)[internalIdx := internalFaders a1 ! internalIdx]\<rparr>
         else a1)"

text \<open>
  The part of \<open>parameterChanged\<close> that follows the computation of the channel index, of the
  sample \<open>v\<close> and of the pickup policy.
\<close>

definition pickupResolve :: "VFader \<Rightarrow> nat \<Rightarrow> c_float \<Rightarrow> int \<Rightarrow> VFader" where
  "pickupResolve a internalIdx v pickupMode =
     (let currentValue = internalFaders a ! internalIdx;
          mismatch = coarseMismatch a internalIdx v;
          moving = movingContinuously a internalIdx v;
          sameDir = sameDirection a internalIdx v;
          a1 = trackPhysical a internalIdx v;
          a2 = (if \<not> inPickupMode a1 ! internalIdx
                then absoluteBranch a1 internalIdx v currentValue mismatch moving sameDir
                else if pickupMode = 1
                then catchBranch a1 internalIdx v currentValue mismatch moving sameDir
                else scaledBranch a1 internalIdx v)
      in finishResolve a2 internalIdx v)"

text \<open>
  The channel a fader parameter addresses on the current page, and \<open>parameterChanged\<close>
  itself. A change of the page parameter only updates the display, which is not modelled.
  The parameter index \<open>p\<close> is a natural number: a negative \<open>int p\<close> matches no branch.
\<close>

definition faderChannel :: "VFader \<Rightarrow> nat \<Rightarrow> nat" where
  "faderChannel a p =
     (let faderIdx = p - kParamFader1;
          currentPage = param_v a ! kParamPage
      in nat (currentPage * 8 + int faderIdx))"

definition pickupModeOf :: "VFader \<Rightarrow> int" where
  "pickupModeOf a = c_int (real_of_int (param_v a ! kParamPickupMode) + 0.5)"

definition parameterChanged :: "VFader \<Rightarrow> nat \<Rightarrow> VFader" where
  "parameterChanged a p =
     (if p \<ge> kParamFader1 \<and> p \<le> kParamFader8 then
        let internalIdx = faderChannel a p;
            v = physicalSample (param_v a ! p);
            pickupMode = pickupModeOf a
        in pickupResolve a internalIdx v pickupMode
      else a)"

text \<open>
  What reaches the engine: the host writes a raw value to a fader parameter and calls
  \<open>parameterChanged\<close>, or it calls \<open>step\<close>.
\<close>

datatype event = Sample nat int | Tick

fun applyEvent :: "event \<Rightarrow> VFader \<Rightarrow> VFader" where
  "applyEvent (Sample p raw) a =
     (if p \<le> kParamFader8 then parameterChanged (a\<lparr>param_v := (param_v a)[p := raw]\<rparr>) p
      else a)"
| "applyEvent Tick a = fst (step a)"

text \<open>Every held value lies in \<open>[0,1]\<close>.\<close>

definition fadersInRange :: "VFader \<Rightarrow> bool" where
  "fadersInRange a = (\<forall>i<32. 0 \<le> internalFaders a ! i \<and> internalFaders a ! i \<le> 1)"

text \<open>The page parameter is within the range \<open>initParameters\<close> declares for it.\<close>

definition pageInRange :: "VFader \<Rightarrow> bool" where
  "pageInRange a = (0 \<le> param_v a ! kParamPage \<and> param_v a ! kParamPage \<le> 3)"

subsection \<open>The state after construction\<close>

text \<open>
  The member initialisers of \<open>struct VFader\<close>, \<open>initializeNoteSettings\<close>, and the default
  values that \<open>initParameters\<close> declares for the 37 parameters.
\<close>

definition defaultNoteSettings :: FaderNoteSettings where
  "defaultNoteSettings =
     \<lparr>displayMode = 0, sharpFlat = 0, bottomMidi = 36, topMidi = 96,
      bottomValue = 0, topValue = 100, chromaticScale = replicate 12 1,
      controlAllCount = 0, controlAllMode = 0\<rparr>"

definition defaultParams :: "int list" where
  "defaultParams =
     [0, 0, 0, 0, 0, 0, 0, 0,
      0, 1, 1, 0, 0,
      1, 0, 2, 0, 3, 0, 4, 0, 5, 0, 6, 0, 7, 0, 8, 0,
      0, 0, 0, 0, 0, 0, 0, 0]"

definition initState :: VFader where
  "initState =
     \<lparr>internalFaders = replicate 32 0,
      lastMidiValues = replicate 32 (-1),
      physicalFaderPos = replicate 32 0,
      lastPhysicalPos = replicate 32 0,
      pickupPivot = replicate 32 (-1),
      pickupStartValue = replicate 32 0,
      inPickupMode = replicate 32 False,
      inSlewMode = replicate 32 False,
      slewTarget = replicate 32 0,
      pickupSettleFrames = replicate 32 0,
      send14bitPhase = False,
      endpointHoldCounter = replicate 32 0,
      faderNoteSettings = replicate 32 defaultNoteSettings,
      faderReferenceValues = replicate 32 0.5,
      lastGangValues = replicate 32 (-1),
      param_v = defaultParams\<rparr>"

subsection \<open>Notions used to state the gang properties\<close>





subsection \<open>Notions used to state the encoder properties\<close>

text \<open>
  The messages of one tick that belong to channel \<open>i\<close>: in 7-bit mode those on controller
  \<open>i + 1\<close>, in 14-bit mode those on controllers \<open>i\<close> (MSB) and \<open>i + 32\<close> (LSB).
\<close>

definition msgs7 :: "nat \<Rightarrow> midi3 list \<Rightarrow> midi3 list" where
  "msgs7 i out = filter (\<lambda>m. fst (snd m) = i + 1) out"

definition msgs14 :: "nat \<Rightarrow> midi3 list \<Rightarrow> midi3 list" where
  "msgs14 i out = filter (\<lambda>m. fst (snd m) = i \<or> fst (snd m) = i + 32) out"

text \<open>The messages of \<open>n\<close> consecutive ticks, one list per tick.\<close>

fun runTicks :: "nat \<Rightarrow> VFader \<Rightarrow> midi3 list list" where
  "runTicks 0 a = []"
| "runTicks (Suc n) a = snd (step a) # runTicks n (fst (step a))"

text \<open>
  \<open>sameChan i s s'\<close>: going from \<open>s\<close> to \<open>s'\<close> left alone everything the encoder reads for
  channel \<open>i\<close>, and every member outside the encoder's own two arrays.
\<close>

definition sameChan :: "nat \<Rightarrow> VFader \<Rightarrow> VFader \<Rightarrow> bool" where
  "sameChan i s s' =
     (s' = s\<lparr>lastMidiValues := lastMidiValues s', endpointHoldCounter := endpointHoldCounter s'\<rparr>
      \<and> length (lastMidiValues s') = length (lastMidiValues s)
      \<and> length (endpointHoldCounter s') = length (endpointHoldCounter s)
      \<and> lastMidiValues s' ! i = lastMidiValues s ! i
      \<and> endpointHoldCounter s' ! i = endpointHoldCounter s ! i)"

text \<open>
  \<open>gangFrame s s'\<close>: going from \<open>s\<close> to \<open>s'\<close> changed at most the three arrays that gang
  propagation writes, and not their lengths.
\<close>

definition gangFrame :: "VFader \<Rightarrow> VFader \<Rightarrow> bool" where
  "gangFrame s s' =
     (s' = s\<lparr>internalFaders := internalFaders s',
              faderReferenceValues := faderReferenceValues s',
              lastGangValues := lastGangValues s'\<rparr>
      \<and> length (internalFaders s') = length (internalFaders s)
      \<and> length (faderReferenceValues s') = length (faderReferenceValues s)
      \<and> length (lastGangValues s') = length (lastGangValues s))"

text \<open>The arrays have the 32 entries of their declarations, the parameter array 37.\<close>

definition wf_state :: "VFader \<Rightarrow> bool" where
  "wf_state a =
     (length (internalFaders a) = 32 \<and> length (lastMidiValues a) = 32
      \<and> length (physicalFaderPos a) = 32 \<and> length (lastPhysicalPos a) = 32
      \<and> length (pickupPivot a) = 32 \<and> length (pickupStartValue a) = 32
      \<and> length (inPickupMode a) = 32 \<and> length (inSlewMode a) = 32
      \<and> length (slewTarget a) = 32 \<and> length (pickupSettleFrames a) = 32
      \<and> length (endpointHoldCounter a) = 32 \<and> length (faderNoteSettings a) = 32
      \<and> length (faderReferenceValues a) = 32 \<and> length (lastGangValues a) = 32
      \<and> length (param_v a) = kNumParameters)"

text \<open>No channel is configured as a gang leader.\<close>

definition noLeaders :: "VFader \<Rightarrow> bool" where
  "noLeaders a = list_all (\<lambda>i. controlAllCount (faderNoteSettings a ! i) = 0) [0..<32]"

text \<open>The mode that \<open>step\<close> reads from the MIDI-mode parameter.\<close>

definition midiModeOf :: "VFader \<Rightarrow> int" where
  "midiModeOf a = c_int (real_of_int (param_v a ! kParamMidiMode) + 0.5)"

text \<open>
  One tick as channel \<open>i\<close> alone sees it: the loop body for \<open>i\<close> and, in 14-bit mode, the
  toggle of the phase. \<open>chanRun\<close> iterates it and lists the messages tick by tick.
\<close>

definition chanTick :: "VFader \<Rightarrow> nat \<Rightarrow> VFader \<times> midi3 list" where
  "chanTick a i =
     (let driftLevel = param_v a ! kParamDriftControl in
      if midiModeOf a = 0 then encode7 driftLevel i a
      else
        let (a1, out) = encode14 driftLevel i a
        in (a1\<lparr>send14bitPhase := \<not> send14bitPhase a1\<rparr>, out))"

fun chanRun :: "nat \<Rightarrow> VFader \<Rightarrow> nat \<Rightarrow> midi3 list list" where
  "chanRun 0 a i = []"
| "chanRun (Suc n) a i = snd (chanTick a i) # chanRun n (fst (chanTick a i)) i"

definition msgsOf :: "int \<Rightarrow> nat \<Rightarrow> midi3 list \<Rightarrow> midi3 list" where
  "msgsOf midiMode i out = (if midiMode = 0 then msgs7 i out else msgs14 i out)"

text \<open>
  The values the encoder reads for channel \<open>i\<close>, gathered in one record, and the loop body
  (with the phase toggle of 14-bit mode) as a function of these values alone. The lemma
  \<open>chanTick_view\<close> below proves that \<open>viewTick\<close> computes what the loop body of \<open>step\<close>
  computes for channel \<open>i\<close>.
\<close>

record chanView =
  cvValue :: c_float
  cvLast :: c_float
  cvHold :: nat
  cvPhase :: bool
  cvSettings :: FaderNoteSettings
  cvDrift :: int
  cvMode :: int

definition viewOf :: "VFader \<Rightarrow> nat \<Rightarrow> chanView" where
  "viewOf a i =
     \<lparr>cvValue = internalFaders a ! i, cvLast = lastMidiValues a ! i,
      cvHold = endpointHoldCounter a ! i, cvPhase = send14bitPhase a,
      cvSettings = faderNoteSettings a ! i, cvDrift = param_v a ! kParamDriftControl,
      cvMode = midiModeOf a\<rparr>"

definition cvCurrent :: "chanView \<Rightarrow> c_float" where
  "cvCurrent c = applyDriftControl (cvValue c) (cvLast c) (cvDrift c)"

definition cvChanged :: "chanView \<Rightarrow> bool" where
  "cvChanged c = (cvLast c < 0.0 \<or> \<bar>cvCurrent c - cvLast c\<bar> > 0.001)"

definition viewTick :: "nat \<Rightarrow> chanView \<Rightarrow> chanView \<times> midi3 list" where
  "viewTick i c =
     (if cvMode c = 0 then
        if cvChanged c
        then (c\<lparr>cvLast := cvCurrent c\<rparr>,
              [(statusByte, u8 (int i + 1), midiValue7 (cvCurrent c) (cvSettings c))])
        else (c, [])
      else if cvChanged c then
        let full = (if displayMode (cvSettings c) = 1
                    then push_bit 7 (int (u8 (snapToActiveNote (cvCurrent c) (cvSettings c))))
                    else full14 (fst (snapEndpoint (cvCurrent c))));
            hold = (if displayMode (cvSettings c) \<noteq> 1 \<and> snd (snapEndpoint (cvCurrent c))
                    then 3 else cvHold c)
        in (c\<lparr>cvLast := (if cvPhase c then cvCurrent c else cvLast c), cvHold := hold,
               cvPhase := \<not> cvPhase c\<rparr>,
            [half14 (cvPhase c) i full])
      else if cvHold c > 0 then
        (c\<lparr>cvHold := cvHold c - 1, cvPhase := \<not> cvPhase c\<rparr>,
         [half14 (cvPhase c) i (full14 (cvLast c))])
      else (c\<lparr>cvPhase := \<not> cvPhase c\<rparr>, []))"

fun viewRun :: "nat \<Rightarrow> nat \<Rightarrow> chanView \<Rightarrow> midi3 list list" where
  "viewRun 0 i c = []"
| "viewRun (Suc n) i c = snd (viewTick i c) # viewRun n i (fst (viewTick i c))"


subsection \<open>Example states of the encoder\<close>



text \<open>
  14-bit mode, every channel last sent as 0, channel 0 now held at 1: once with channel 0 in
  Number mode (the default), once with channel 0 in Note mode.
\<close>

definition exNumber :: VFader where
  "exNumber = initState
     \<lparr>internalFaders := (replicate 32 0)[0 := 1], lastMidiValues := replicate 32 0\<rparr>"

definition exNote :: VFader where
  "exNote = initState
     \<lparr>internalFaders := (replicate 32 0)[0 := 1], lastMidiValues := replicate 32 0,
      faderNoteSettings := (replicate 32 defaultNoteSettings)
        [0 := defaultNoteSettings\<lparr>displayMode := 1\<rparr>]\<rparr>"

text \<open>14-bit mode, channel 0 held at 0.995, inside the upper deadzone, nothing sent yet.\<close>

definition exNear1 :: VFader where
  "exNear1 = initState\<lparr>internalFaders := (replicate 32 0)[0 := 0.995]\<rparr>"

subsection \<open>Example states of the pickup resolver\<close>



text \<open>The lengths of all arrays of a state, in the order of the record.\<close>

definition lens :: "VFader \<Rightarrow> nat list" where
  "lens a =
     [length (internalFaders a), length (lastMidiValues a), length (physicalFaderPos a),
      length (lastPhysicalPos a), length (pickupPivot a), length (pickupStartValue a),
      length (inPickupMode a), length (inSlewMode a), length (slewTarget a),
      length (pickupSettleFrames a), length (endpointHoldCounter a),
      length (faderNoteSettings a), length (faderReferenceValues a),
      length (lastGangValues a), length (param_v a)]"

section \<open>Theorems\<close>

subsection \<open>Drift lock\<close>



subsection \<open>Facts about the follower loop\<close>

declare childLoop.simps [simp del] minmaxLoop.simps [simp del]

lemma clamp01_range: "0 \<le> clamp01 x \<and> clamp01 x \<le> 1"
  by (simp add: clamp01_def Let_def)

lemma clamp01_id: "0 \<le> x \<Longrightarrow> x \<le> 1 \<Longrightarrow> clamp01 x = x"
  by (simp add: clamp01_def Let_def)

lemma childLoop_stop:
  "\<not> (j \<le> childCount \<and> i + j < 32) \<Longrightarrow> childLoop a i childCount mode gangValue gangLogical j = a"
  by (subst childLoop.simps) auto

lemma childLoop_skip:
  "j \<le> childCount \<Longrightarrow> i + j < 32 \<Longrightarrow> 0 < controlAllCount (faderNoteSettings a ! (i + j)) \<Longrightarrow>
   childLoop a i childCount mode gangValue gangLogical j
     = childLoop a i childCount mode gangValue gangLogical (j + 1)"
  by (subst childLoop.simps) simp

lemma childLoop_store:
  "j \<le> childCount \<Longrightarrow> i + j < 32 \<Longrightarrow> controlAllCount (faderNoteSettings a ! (i + j)) = 0 \<Longrightarrow>
   childLoop a i childCount mode gangValue gangLogical j
     = childLoop (childWrite a (i + j) mode gangValue gangLogical) i childCount mode gangValue gangLogical (j + 1)"
  by (subst childLoop.simps) (simp add: Let_def)

lemma childWrite_fields:
  "faderNoteSettings (childWrite a c mode gv gl) = faderNoteSettings a"
  "length (internalFaders (childWrite a c mode gv gl)) = length (internalFaders a)"
  "lastGangValues (childWrite a c mode gv gl) = lastGangValues a"
  "lastMidiValues (childWrite a c mode gv gl) = lastMidiValues a"
  "endpointHoldCounter (childWrite a c mode gv gl) = endpointHoldCounter a"
  "send14bitPhase (childWrite a c mode gv gl) = send14bitPhase a"
  "param_v (childWrite a c mode gv gl) = param_v a"
  "mode = 0 \<Longrightarrow> faderReferenceValues (childWrite a c mode gv gl) = faderReferenceValues a"
  "idx \<noteq> c \<Longrightarrow> internalFaders (childWrite a c mode gv gl) ! idx = internalFaders a ! idx"
  "c < length (internalFaders a) \<Longrightarrow> internalFaders (childWrite a c mode gv gl) ! c
      = clamp01 (childNewValue mode gv gl (faderReferenceValues a ! c))"
  by (simp_all add: childWrite_def Let_def)

text \<open>Induction along the iterations of the follower loop.\<close>

lemma childLoop_induct2 [consumes 0, case_names stop skip store]:
  assumes stop: "\<And>a j. \<not> (j \<le> childCount \<and> i + j < 32) \<Longrightarrow> P a j"
    and skip: "\<And>a j. j \<le> childCount \<Longrightarrow> i + j < 32 \<Longrightarrow>
        0 < controlAllCount (faderNoteSettings a ! (i + j)) \<Longrightarrow> P a (j + 1) \<Longrightarrow> P a j"
    and store: "\<And>a j. j \<le> childCount \<Longrightarrow> i + j < 32 \<Longrightarrow>
        controlAllCount (faderNoteSettings a ! (i + j)) = 0 \<Longrightarrow>
        P (childWrite a (i + j) mode gangValue gangLogical) (j + 1) \<Longrightarrow> P a j"
  shows "P a j"
proof (induction "32 - (i + j)" arbitrary: a j rule: less_induct)
  case less
  show ?case
  proof (cases "j \<le> childCount \<and> i + j < 32")
    case False
    then show ?thesis by (rule assms(1))
  next
    case True
    then have r: "j \<le> childCount" "i + j < 32" by auto
    show ?thesis
    proof (cases "0 < controlAllCount (faderNoteSettings a ! (i + j))")
      case True
      show ?thesis
        by (rule assms(2) [OF r True]) (rule less, use r in simp)
    next
      case False
      then have z: "controlAllCount (faderNoteSettings a ! (i + j)) = 0" by simp
      show ?thesis
        by (rule assms(3) [OF r z]) (rule less, use r in simp)
    qed
  qed
qed


lemma childLoop_length:
  "length (internalFaders (childLoop a i childCount mode gangValue gangLogical j)) = length (internalFaders a)"
  by (induction a j rule: childLoop_induct2 [of childCount i _ mode gangValue gangLogical])
     (simp_all add: childLoop_stop childLoop_skip childLoop_store childWrite_fields)

lemma childLoop_lastGang:
  "lastGangValues (childLoop a i childCount mode gangValue gangLogical j) = lastGangValues a"
  by (induction a j rule: childLoop_induct2 [of childCount i _ mode gangValue gangLogical])
     (simp_all add: childLoop_stop childLoop_skip childLoop_store childWrite_fields)

lemma childLoop_encoder_fields:
  "lastMidiValues (childLoop a i childCount mode gangValue gangLogical j) = lastMidiValues a
   \<and> endpointHoldCounter (childLoop a i childCount mode gangValue gangLogical j) = endpointHoldCounter a
   \<and> send14bitPhase (childLoop a i childCount mode gangValue gangLogical j) = send14bitPhase a
   \<and> param_v (childLoop a i childCount mode gangValue gangLogical j) = param_v a"
  by (induction a j rule: childLoop_induct2 [of childCount i _ mode gangValue gangLogical])
     (simp_all add: childLoop_stop childLoop_skip childLoop_store childWrite_fields)

lemma childLoop_refs_abs:
  "faderReferenceValues (childLoop a i childCount 0 gangValue gangLogical j) = faderReferenceValues a"
  by (induction a j rule: childLoop_induct2 [of childCount i _ 0 gangValue gangLogical])
     (simp_all add: childLoop_stop childLoop_skip childLoop_store childWrite_fields)



lemma childWrite_range:
  assumes "\<forall>idx<32. 0 \<le> internalFaders a ! idx \<and> internalFaders a ! idx \<le> 1"
  shows "\<forall>idx<32. 0 \<le> internalFaders (childWrite a c mode gv gl) ! idx
          \<and> internalFaders (childWrite a c mode gv gl) ! idx \<le> 1"
proof (intro allI impI)
  fix idx :: nat assume "idx < 32"
  show "0 \<le> internalFaders (childWrite a c mode gv gl) ! idx
          \<and> internalFaders (childWrite a c mode gv gl) ! idx \<le> 1"
  proof (cases "idx = c \<and> c < length (internalFaders a)")
    case True
    then show ?thesis by (simp add: childWrite_fields clamp01_range)
  next
    case False
    then have "internalFaders (childWrite a c mode gv gl) ! idx = internalFaders a ! idx"
      by (auto simp add: childWrite_def Let_def list_update_beyond)
    then show ?thesis using assms \<open>idx < 32\<close> by simp
  qed
qed

lemma childLoop_range:
  "\<forall>idx<32. 0 \<le> internalFaders a ! idx \<and> internalFaders a ! idx \<le> 1 \<Longrightarrow>
   \<forall>idx<32. 0 \<le> internalFaders (childLoop a i childCount mode gangValue gangLogical j) ! idx
          \<and> internalFaders (childLoop a i childCount mode gangValue gangLogical j) ! idx \<le> 1"
proof (induction a j rule: childLoop_induct2 [of childCount i _ mode gangValue gangLogical])
  case (stop a j)
  then show ?case by (simp add: childLoop_stop)
next
  case (skip a j)
  then show ?case by (simp add: childLoop_skip)
next
  case (store a j)
  then show ?case using childWrite_range [of a] by (simp add: childLoop_store)
qed

subsection \<open>Facts about the reference band\<close>





subsection \<open>Gang propagation of one leader\<close>


lemma gangLeader_length: "length (internalFaders (gangLeader a i)) = length (internalFaders a)"
  by (simp add: gangLeader_def Let_def childLoop_length)

lemma gangLeader_encoder_fields:
  "lastMidiValues (gangLeader a i) = lastMidiValues a
   \<and> endpointHoldCounter (gangLeader a i) = endpointHoldCounter a
   \<and> send14bitPhase (gangLeader a i) = send14bitPhase a
   \<and> param_v (gangLeader a i) = param_v a"
  by (simp add: gangLeader_def Let_def childLoop_encoder_fields)

lemma gangLeader_range:
  "\<forall>idx<32. 0 \<le> internalFaders a ! idx \<and> internalFaders a ! idx \<le> 1 \<Longrightarrow>
   \<forall>idx<32. 0 \<le> internalFaders (gangLeader a i) ! idx \<and> internalFaders (gangLeader a i) ! idx \<le> 1"
  using childLoop_range [of a i "controlAllCount (faderNoteSettings a ! i)"
      "controlAllMode (faderNoteSettings a ! i)" "internalFaders a ! i" "gangLogicalOf a i" 1]
  by (simp add: gangLeader_def Let_def)






subsection \<open>Absolute gang mode\<close>






subsection \<open>Facts about the encoder loop\<close>

lemma u8_small: "n < 256 \<Longrightarrow> u8 (int n) = n"
  by (simp add: u8_def)

lemma u8_succ_small: "n < 255 \<Longrightarrow> u8 (int n + 1) = n + 1"
  using u8_small [of "n + 1"] by (simp add: add.commute)

lemma u8_plus32_small: "n < 32 \<Longrightarrow> u8 (int n + 32) = n + 32"
  using u8_small [of "n + 32"] by (simp add: add.commute)

lemma statusByte_value: "statusByte = 176"
  by (simp add: statusByte_def midiChannel_def)

lemma sameChan_refl: "sameChan i s s"
  by (simp add: sameChan_def)

lemma sameChan_trans: "sameChan i s t \<Longrightarrow> sameChan i t u \<Longrightarrow> sameChan i s u"
  by (cases s, cases t, cases u) (simp add: sameChan_def)

lemma encode7_other:
  "j \<noteq> i \<Longrightarrow> sameChan i s (fst (encode7 dl j s))"
  by (cases s) (simp add: encode7_def sameChan_def Let_def)

lemma encode7_cc:
  "j < 32 \<Longrightarrow> m \<in> set (snd (encode7 dl j s)) \<Longrightarrow> fst (snd m) = j + 1"
  by (auto simp add: encode7_def Let_def u8_succ_small split: if_splits)

lemma encode14_other:
  "j \<noteq> i \<Longrightarrow> sameChan i s (fst (encode14 dl j s))"
  by (cases s) (simp add: encode14_def sameChan_def Let_def split_def)

lemma half14_cc:
  "j < 32 \<Longrightarrow> fst (snd (half14 ph j full)) = (if ph then j + 32 else j)"
  by (simp add: half14_def Let_def u8_small u8_plus32_small)

lemma encode14_cc:
  "j < 32 \<Longrightarrow> m \<in> set (snd (encode14 dl j s)) \<Longrightarrow> fst (snd m) = j \<or> fst (snd m) = j + 32"
  by (auto simp add: encode14_def Let_def split_def half14_cc split: if_splits)

text \<open>Iterations for other channels neither touch channel \<open>i\<close> nor add messages for it.\<close>

lemma encFold_skip:
  assumes "\<And>j s. j \<in> set xs \<Longrightarrow> sameChan i s (fst (enc j s)) \<and> filter F (snd (enc j s)) = []"
  shows "sameChan i s (fst (fold (\<lambda>i (s, out). let (s', m) = enc i s in (s', out @ m)) xs (s, out)))
       \<and> filter F (snd (fold (\<lambda>i (s, out). let (s', m) = enc i s in (s', out @ m)) xs (s, out)))
           = filter F out"
  using assms
proof (induction xs arbitrary: s out)
  case Nil
  then show ?case by (simp add: sameChan_refl)
next
  case (Cons x xs)
  have hd: "sameChan i s (fst (enc x s))" "filter F (snd (enc x s)) = []"
    using Cons.prems [of x s] by simp_all
  have ih: "sameChan i (fst (enc x s))
        (fst (fold (\<lambda>i (s, out). let (s', m) = enc i s in (s', out @ m)) xs
               (fst (enc x s), out @ snd (enc x s))))
     \<and> filter F (snd (fold (\<lambda>i (s, out). let (s', m) = enc i s in (s', out @ m)) xs
               (fst (enc x s), out @ snd (enc x s))))
         = filter F (out @ snd (enc x s))"
    by (rule Cons.IH) (use Cons.prems in simp)
  show ?case
    using hd ih sameChan_trans [OF hd(1)]
    by (simp add: split_def Let_def)
qed

lemma encodeLoop_split:
  assumes "i < 32"
  shows "encodeLoop enc a =
     fold (\<lambda>i (s, out). let (s', m) = enc i s in (s', out @ m)) [Suc i..<32]
       (let (s, out) = fold (\<lambda>i (s, out). let (s', m) = enc i s in (s', out @ m)) [0..<i] (a, [])
        in (fst (enc i s), out @ snd (enc i s)))"
proof -
  have "[0..<32] = [0..<i] @ i # [Suc i..<32]"
    using assms by (metis le0 upt_add_eq_append upt_rec less_imp_le_nat le_add_diff_inverse)
  then show ?thesis
    by (simp add: encodeLoop_def split_def Let_def)
qed

text \<open>
  What the whole loop does for channel \<open>i\<close>, in terms of the loop body at a state that
  agrees with the start state on channel \<open>i\<close>.
\<close>

lemma encodeLoop_channel:
  assumes i: "i < 32"
    and other: "\<And>j s. j < 32 \<Longrightarrow> j \<noteq> i \<Longrightarrow>
        sameChan i s (fst (enc j s)) \<and> filter F (snd (enc j s)) = []"
  shows "\<exists>s1. sameChan i a s1 \<and> sameChan i (fst (enc i s1)) (fst (encodeLoop enc a))
       \<and> filter F (snd (encodeLoop enc a)) = filter F (snd (enc i s1))"
proof -
  let ?f = "\<lambda>i (s, out). let (s', m) = enc i s in (s', out @ m)"
  let ?p = "fold ?f [0..<i] (a, [])"
  have pre: "sameChan i a (fst ?p) \<and> filter F (snd ?p) = filter F []"
    by (rule encFold_skip) (use other i in auto)
  let ?q = "fold ?f [Suc i..<32] (fst (enc i (fst ?p)), snd ?p @ snd (enc i (fst ?p)))"
  have post: "sameChan i (fst (enc i (fst ?p))) (fst ?q)
       \<and> filter F (snd ?q) = filter F (snd ?p @ snd (enc i (fst ?p)))"
    by (rule encFold_skip) (use other i in auto)
  have eq: "encodeLoop enc a = ?q"
    by (simp add: encodeLoop_split [OF i] split_def Let_def)
  show ?thesis
    using pre post eq by (intro exI [of _ "fst ?p"]) simp
qed

subsection \<open>Facts about the gang pass\<close>

lemma gangFrame_refl: "gangFrame s s"
  by (simp add: gangFrame_def)

lemma gangFrame_trans: "gangFrame s t \<Longrightarrow> gangFrame t u \<Longrightarrow> gangFrame s u"
  by (cases s, cases t, cases u) (simp add: gangFrame_def)

lemma childWrite_frame: "gangFrame a (childWrite a c mode gv gl)"
  by (cases a) (simp add: gangFrame_def childWrite_def Let_def)

lemma childLoop_frame: "gangFrame a (childLoop a i childCount mode gangValue gangLogical j)"
proof (induction a j rule: childLoop_induct2 [of childCount i _ mode gangValue gangLogical])
  case (stop a j)
  then show ?case by (simp add: childLoop_stop gangFrame_refl)
next
  case (skip a j)
  then show ?case by (simp add: childLoop_skip)
next
  case (store a j)
  then show ?case
    using gangFrame_trans [OF childWrite_frame] by (simp add: childLoop_store)
qed

lemma gangLeader_gangFrame: "gangFrame a (gangLeader a i)"
proof -
  have "gangFrame a (childLoop a i cc m gv gl 1
          \<lparr>lastGangValues := (lastGangValues (childLoop a i cc m gv gl 1))[i := gv]\<rparr>)"
    for cc m gv gl
    using childLoop_frame [of a i cc m gv gl 1]
    by (cases a, cases "childLoop a i cc m gv gl 1") (simp add: gangFrame_def)
  then show ?thesis
    by (simp add: gangLeader_def Let_def gangFrame_refl)
qed

lemma fold_invariant:
  "P s \<Longrightarrow> (\<And>x t. x \<in> set xs \<Longrightarrow> P t \<Longrightarrow> P (f x t)) \<Longrightarrow> P (fold f xs s)"
  by (induction xs arbitrary: s) simp_all

lemma gangPass_frame: "gangFrame a (gangPass a)"
  unfolding gangPass_def
  by (rule fold_invariant [where P = "gangFrame a"])
     (auto intro: gangFrame_refl gangFrame_trans gangLeader_gangFrame)

lemma gangPass_range:
  "\<forall>idx<32. 0 \<le> internalFaders a ! idx \<and> internalFaders a ! idx \<le> 1 \<Longrightarrow>
   \<forall>idx<32. 0 \<le> internalFaders (gangPass a) ! idx \<and> internalFaders (gangPass a) ! idx \<le> 1"
  unfolding gangPass_def
  by (rule fold_invariant
        [where P = "\<lambda>s. \<forall>idx<32. 0 \<le> internalFaders s ! idx \<and> internalFaders s ! idx \<le> 1"])
     (simp_all add: gangLeader_range)

lemma noLeaders_nth: "noLeaders a \<Longrightarrow> i < 32 \<Longrightarrow> controlAllCount (faderNoteSettings a ! i) = 0"
  by (simp add: noLeaders_def list_all_iff)

lemma gangPass_noLeaders: "noLeaders a \<Longrightarrow> gangPass a = a"
  unfolding gangPass_def
  by (rule fold_invariant [where P = "\<lambda>s. s = a"])
     (simp_all add: gangLeader_def noLeaders_nth)

lemma gangFrame_fields:
  assumes "gangFrame s s'"
  shows "lastMidiValues s' = lastMidiValues s" "endpointHoldCounter s' = endpointHoldCounter s"
    "send14bitPhase s' = send14bitPhase s" "param_v s' = param_v s"
    "faderNoteSettings s' = faderNoteSettings s"
    "length (internalFaders s') = length (internalFaders s)"
    "wf_state s \<Longrightarrow> wf_state s'"
  using assms by (cases s, cases s', simp add: gangFrame_def wf_state_def)+

subsection \<open>One tick, seen from one channel\<close>

lemma sameChan_fields:
  assumes "sameChan i s s'"
  shows "internalFaders s' = internalFaders s" "faderNoteSettings s' = faderNoteSettings s"
    "send14bitPhase s' = send14bitPhase s" "param_v s' = param_v s"
    "lastMidiValues s' ! i = lastMidiValues s ! i"
    "endpointHoldCounter s' ! i = endpointHoldCounter s ! i"
    "length (lastMidiValues s') = length (lastMidiValues s)"
    "length (endpointHoldCounter s') = length (endpointHoldCounter s)"
    "wf_state s \<Longrightarrow> wf_state s'"
  using assms by (cases s, cases s', simp add: sameChan_def wf_state_def)+

lemma encode14_local:
  assumes "sameChan i a s"
  shows "snd (encode14 dl i s) = snd (encode14 dl i a)"
    and "lastMidiValues (fst (encode14 dl i s)) ! i = lastMidiValues (fst (encode14 dl i a)) ! i"
    and "endpointHoldCounter (fst (encode14 dl i s)) ! i
          = endpointHoldCounter (fst (encode14 dl i a)) ! i"
proof -
  note f = sameChan_fields [OF assms]
  show "snd (encode14 dl i s) = snd (encode14 dl i a)"
    by (simp add: encode14_def Let_def split_def f)
  show "lastMidiValues (fst (encode14 dl i s)) ! i = lastMidiValues (fst (encode14 dl i a)) ! i"
    by (cases "i < length (lastMidiValues a)")
       (simp_all add: encode14_def Let_def split_def f list_update_beyond)
  show "endpointHoldCounter (fst (encode14 dl i s)) ! i
          = endpointHoldCounter (fst (encode14 dl i a)) ! i"
    by (cases "i < length (endpointHoldCounter a)")
       (simp_all add: encode14_def Let_def split_def f list_update_beyond)
qed

lemma encode7_local:
  assumes "sameChan i a s"
  shows "snd (encode7 dl i s) = snd (encode7 dl i a)"
    and "lastMidiValues (fst (encode7 dl i s)) ! i = lastMidiValues (fst (encode7 dl i a)) ! i"
    and "endpointHoldCounter (fst (encode7 dl i s)) ! i = endpointHoldCounter a ! i"
proof -
  note f = sameChan_fields [OF assms]
  show "snd (encode7 dl i s) = snd (encode7 dl i a)"
    by (simp add: encode7_def Let_def f)
  show "lastMidiValues (fst (encode7 dl i s)) ! i = lastMidiValues (fst (encode7 dl i a)) ! i"
    by (cases "i < length (lastMidiValues a)")
       (simp_all add: encode7_def Let_def f list_update_beyond)
  show "endpointHoldCounter (fst (encode7 dl i s)) ! i = endpointHoldCounter a ! i"
    by (simp add: encode7_def Let_def f)
qed

lemma encode7_frame: "\<exists>l. fst (encode7 dl i s) = s\<lparr>lastMidiValues := l\<rparr> \<and> length l = length (lastMidiValues s)"
  by (cases s) (simp add: encode7_def Let_def)

lemma encode14_frame:
  "\<exists>l h. fst (encode14 dl i s) = s\<lparr>lastMidiValues := l, endpointHoldCounter := h\<rparr>
     \<and> length l = length (lastMidiValues s) \<and> length h = length (endpointHoldCounter s)"
  by (cases s) (simp add: encode14_def Let_def split_def)

lemma encode7_sameChan:
  assumes "sameChan i x s"
  shows "sameChan i (fst (encode7 dl i x)) (fst (encode7 dl i s))"
proof -
  obtain l where 1: "fst (encode7 dl i x) = x\<lparr>lastMidiValues := l\<rparr>"
      "length l = length (lastMidiValues x)"
    using encode7_frame by blast
  obtain l' where 2: "fst (encode7 dl i s) = s\<lparr>lastMidiValues := l'\<rparr>"
      "length l' = length (lastMidiValues s)"
    using encode7_frame by blast
  show ?thesis
    using assms 1 2 encode7_local(2) [OF assms, of dl]
    by (cases x, cases s) (simp add: sameChan_def)
qed

lemma encode14_sameChan:
  assumes "sameChan i x s"
  shows "sameChan i (fst (encode14 dl i x)) (fst (encode14 dl i s))"
proof -
  obtain l h where 1: "fst (encode14 dl i x) = x\<lparr>lastMidiValues := l, endpointHoldCounter := h\<rparr>"
      "length l = length (lastMidiValues x)" "length h = length (endpointHoldCounter x)"
    using encode14_frame by blast
  obtain l' h' where 2: "fst (encode14 dl i s) = s\<lparr>lastMidiValues := l', endpointHoldCounter := h'\<rparr>"
      "length l' = length (lastMidiValues s)" "length h' = length (endpointHoldCounter s)"
    using encode14_frame by blast
  show ?thesis
    using assms 1 2 encode14_local(2,3) [OF assms, of dl]
    by (cases x, cases s) (simp add: sameChan_def)
qed

lemma sameChan_phase:
  "sameChan i s t \<Longrightarrow>
   sameChan i (s\<lparr>send14bitPhase := \<not> send14bitPhase s\<rparr>) (t\<lparr>send14bitPhase := \<not> send14bitPhase t\<rparr>)"
  by (cases s, cases t) (simp add: sameChan_def)

lemma msgs7_own:
  "i < 32 \<Longrightarrow> msgs7 i (snd (encode7 dl i s)) = snd (encode7 dl i s)"
  unfolding msgs7_def by (rule filter_True) (use encode7_cc in blast)

lemma msgs14_own:
  "i < 32 \<Longrightarrow> msgs14 i (snd (encode14 dl i s)) = snd (encode14 dl i s)"
  unfolding msgs14_def by (rule filter_True) (use encode14_cc in blast)

lemma step_def2:
  "step a =
     (if midiModeOf a = 0 then encodeLoop (encode7 (param_v a ! kParamDriftControl)) (gangPass a)
      else (let L = encodeLoop (encode14 (param_v a ! kParamDriftControl)) (gangPass a)
            in ((fst L)\<lparr>send14bitPhase := \<not> send14bitPhase (fst L)\<rparr>, snd L)))"
  by (simp add: step_def midiModeOf_def Let_def split_def)

text \<open>
  The tick and the channel's own view of it agree on channel \<open>i\<close>, from any two states that
  agree on channel \<open>i\<close> once the gang pass is done.
\<close>

lemma step_channel:
  assumes i: "i < 32" and x: "sameChan i x (gangPass a)"
  shows "sameChan i (fst (chanTick x i)) (fst (step a))
       \<and> msgsOf (midiModeOf a) i (snd (step a)) = snd (chanTick x i)"
proof -
  let ?dl = "param_v a ! kParamDriftControl"
  have par: "param_v x = param_v a"
    using sameChan_fields(4) [OF x] gangFrame_fields(4) [OF gangPass_frame [of a]] by simp
  then have mode: "midiModeOf x = midiModeOf a"
    by (simp add: midiModeOf_def)
  show ?thesis
  proof (cases "midiModeOf a = 0")
    case True
    have "\<exists>s1. sameChan i (gangPass a) s1
        \<and> sameChan i (fst (encode7 ?dl i s1)) (fst (encodeLoop (encode7 ?dl) (gangPass a)))
        \<and> filter (\<lambda>m. fst (snd m) = i + 1) (snd (encodeLoop (encode7 ?dl) (gangPass a)))
            = filter (\<lambda>m. fst (snd m) = i + 1) (snd (encode7 ?dl i s1))"
    proof (rule encodeLoop_channel [OF i])
      fix j s assume j: "j < 32" "j \<noteq> i"
      have "filter (\<lambda>m. fst (snd m) = i + 1) (snd (encode7 ?dl j s)) = []"
        using encode7_cc [OF j(1)] j(2) by (auto simp add: filter_empty_conv)
      then show "sameChan i s (fst (encode7 ?dl j s))
          \<and> filter (\<lambda>m. fst (snd m) = i + 1) (snd (encode7 ?dl j s)) = []"
        using encode7_other [OF j(2)] by simp
    qed
    then obtain s1 where s1: "sameChan i (gangPass a) s1"
        "sameChan i (fst (encode7 ?dl i s1)) (fst (encodeLoop (encode7 ?dl) (gangPass a)))"
        "msgs7 i (snd (encodeLoop (encode7 ?dl) (gangPass a))) = msgs7 i (snd (encode7 ?dl i s1))"
      by (auto simp add: msgs7_def)
    have xs1: "sameChan i x s1" by (rule sameChan_trans [OF x s1(1)])
    have "sameChan i (fst (encode7 ?dl i x)) (fst (encodeLoop (encode7 ?dl) (gangPass a)))"
      by (rule sameChan_trans [OF encode7_sameChan [OF xs1] s1(2)])
    moreover have "msgs7 i (snd (encodeLoop (encode7 ?dl) (gangPass a))) = snd (encode7 ?dl i x)"
      using s1(3) encode7_local(1) [OF xs1] msgs7_own [OF i] by simp
    ultimately show ?thesis
      using True mode par by (simp add: step_def2 chanTick_def msgsOf_def)
  next
    case False
    have "\<exists>s1. sameChan i (gangPass a) s1
        \<and> sameChan i (fst (encode14 ?dl i s1)) (fst (encodeLoop (encode14 ?dl) (gangPass a)))
        \<and> filter (\<lambda>m. fst (snd m) = i \<or> fst (snd m) = i + 32)
              (snd (encodeLoop (encode14 ?dl) (gangPass a)))
            = filter (\<lambda>m. fst (snd m) = i \<or> fst (snd m) = i + 32) (snd (encode14 ?dl i s1))"
    proof (rule encodeLoop_channel [OF i])
      fix j s assume j: "j < 32" "j \<noteq> i"
      have "filter (\<lambda>m. fst (snd m) = i \<or> fst (snd m) = i + 32) (snd (encode14 ?dl j s)) = []"
        using encode14_cc [OF j(1)] j i by (fastforce simp add: filter_empty_conv)
      then show "sameChan i s (fst (encode14 ?dl j s))
          \<and> filter (\<lambda>m. fst (snd m) = i \<or> fst (snd m) = i + 32) (snd (encode14 ?dl j s)) = []"
        using encode14_other [OF j(2)] by simp
    qed
    then obtain s1 where s1: "sameChan i (gangPass a) s1"
        "sameChan i (fst (encode14 ?dl i s1)) (fst (encodeLoop (encode14 ?dl) (gangPass a)))"
        "msgs14 i (snd (encodeLoop (encode14 ?dl) (gangPass a))) = msgs14 i (snd (encode14 ?dl i s1))"
      by (auto simp add: msgs14_def)
    have xs1: "sameChan i x s1" by (rule sameChan_trans [OF x s1(1)])
    have "sameChan i (fst (encode14 ?dl i x)) (fst (encodeLoop (encode14 ?dl) (gangPass a)))"
      by (rule sameChan_trans [OF encode14_sameChan [OF xs1] s1(2)])
    then have "sameChan i ((fst (encode14 ?dl i x))\<lparr>send14bitPhase := \<not> send14bitPhase (fst (encode14 ?dl i x))\<rparr>)
        ((fst (encodeLoop (encode14 ?dl) (gangPass a)))
           \<lparr>send14bitPhase := \<not> send14bitPhase (fst (encodeLoop (encode14 ?dl) (gangPass a)))\<rparr>)"
      by (rule sameChan_phase)
    moreover have "msgs14 i (snd (encodeLoop (encode14 ?dl) (gangPass a))) = snd (encode14 ?dl i x)"
      using s1(3) encode14_local(1) [OF xs1] msgs14_own [OF i] by simp
    ultimately show ?thesis
      using False mode par by (simp add: step_def2 chanTick_def msgsOf_def Let_def split_def)
  qed
qed

lemma chanTick_static:
  "param_v (fst (chanTick x i)) = param_v x"
  "faderNoteSettings (fst (chanTick x i)) = faderNoteSettings x"
  "internalFaders (fst (chanTick x i)) = internalFaders x"
  by (cases x, simp add: chanTick_def encode7_def encode14_def Let_def split_def)+

lemma step_static:
  assumes "(i::nat) < 32"
  shows "param_v (fst (step a)) = param_v a"
    "faderNoteSettings (fst (step a)) = faderNoteSettings a"
    "internalFaders (fst (step a)) = internalFaders (gangPass a)"
    "midiModeOf (fst (step a)) = midiModeOf a"
    "noLeaders (fst (step a)) = noLeaders a"
    "wf_state a \<Longrightarrow> wf_state (fst (step a))"
proof -
  have sc: "sameChan i (fst (chanTick (gangPass a) i)) (fst (step a))"
    using step_channel [OF assms sameChan_refl] by simp
  note g = gangFrame_fields [OF gangPass_frame [of a]]
  show p: "param_v (fst (step a)) = param_v a"
    using sameChan_fields(4) [OF sc] g by (simp add: chanTick_static)
  show s: "faderNoteSettings (fst (step a)) = faderNoteSettings a"
    using sameChan_fields(2) [OF sc] g by (simp add: chanTick_static)
  show "internalFaders (fst (step a)) = internalFaders (gangPass a)"
    using sameChan_fields(1) [OF sc] by (simp add: chanTick_static)
  show "midiModeOf (fst (step a)) = midiModeOf a"
    using p by (simp add: midiModeOf_def)
  show "noLeaders (fst (step a)) = noLeaders a"
    using s by (simp add: noLeaders_def)
  show "wf_state (fst (step a))" if "wf_state a"
  proof -
    have "wf_state (gangPass a)" using g(7) that by simp
    moreover have "wf_state s \<Longrightarrow> wf_state (fst (chanTick s i))" for s
      by (cases s) (simp add: chanTick_def encode7_def encode14_def Let_def split_def wf_state_def)
    ultimately show ?thesis using sameChan_fields(9) [OF sc] by simp
  qed
qed

text \<open>Without leaders the messages of channel \<open>i\<close> over \<open>n\<close> ticks are those of \<open>chanRun\<close>.\<close>

lemma runTicks_channel:
  "i < 32 \<Longrightarrow> noLeaders a \<Longrightarrow> sameChan i x a \<Longrightarrow>
   map (msgsOf (midiModeOf a) i) (runTicks n a) = chanRun n x i"
proof (induction n arbitrary: x a)
  case 0
  then show ?case by simp
next
  case (Suc n)
  have x: "sameChan i x (gangPass a)"
    using Suc.prems by (simp add: gangPass_noLeaders)
  note sc = step_channel [OF Suc.prems(1) x]
  note st = step_static [OF Suc.prems(1), of a]
  have "map (msgsOf (midiModeOf (fst (step a))) i) (runTicks n (fst (step a)))
      = chanRun n (fst (chanTick x i)) i"
    by (rule Suc.IH) (use Suc.prems sc st in simp_all)
  then show ?case
    using sc st by simp
qed

subsection \<open>The channel's view of a tick\<close>

lemma chanTick_view:
  assumes "i < length (lastMidiValues a)" and "i < length (endpointHoldCounter a)"
  shows "viewOf (fst (chanTick a i)) i = fst (viewTick i (viewOf a i))"
    and "snd (chanTick a i) = snd (viewTick i (viewOf a i))"
    and "length (lastMidiValues (fst (chanTick a i))) = length (lastMidiValues a)"
    and "length (endpointHoldCounter (fst (chanTick a i))) = length (endpointHoldCounter a)"
proof -
  show "viewOf (fst (chanTick a i)) i = fst (viewTick i (viewOf a i))"
    using assms
    by (cases a)
       (simp add: chanTick_def viewTick_def viewOf_def encode7_def encode14_def midiModeOf_def
          cvChanged_def cvCurrent_def Let_def split_def)
  show "snd (chanTick a i) = snd (viewTick i (viewOf a i))"
    using assms
    by (cases a)
       (simp add: chanTick_def viewTick_def viewOf_def encode7_def encode14_def midiModeOf_def
          cvChanged_def cvCurrent_def Let_def split_def)
  show "length (lastMidiValues (fst (chanTick a i))) = length (lastMidiValues a)"
    by (cases a) (simp add: chanTick_def encode7_def encode14_def Let_def split_def)
  show "length (endpointHoldCounter (fst (chanTick a i))) = length (endpointHoldCounter a)"
    by (cases a) (simp add: chanTick_def encode7_def encode14_def Let_def split_def)
qed

lemma chanRun_view:
  "i < length (lastMidiValues a) \<Longrightarrow> i < length (endpointHoldCounter a) \<Longrightarrow>
   chanRun n a i = viewRun n i (viewOf a i)"
proof (induction n arbitrary: a)
  case 0
  then show ?case by simp
next
  case (Suc n)
  note v = chanTick_view [OF Suc.prems]
  have "chanRun n (fst (chanTick a i)) i = viewRun n i (viewOf (fst (chanTick a i)) i)"
    by (rule Suc.IH) (use Suc.prems v in simp_all)
  then show ?case using v by simp
qed

text \<open>One tick of \<open>step\<close>, for channel \<open>i\<close>, in terms of the view after the gang pass.\<close>

lemma step_view:
  assumes i: "i < 32" and wf: "wf_state a"
  shows "msgsOf (midiModeOf a) i (snd (step a)) = snd (viewTick i (viewOf (gangPass a) i))"
    and "viewOf (fst (step a)) i = fst (viewTick i (viewOf (gangPass a) i))"
proof -
  have g: "wf_state (gangPass a)"
    using gangFrame_fields(7) [OF gangPass_frame wf] .
  then have len: "i < length (lastMidiValues (gangPass a))"
      "i < length (endpointHoldCounter (gangPass a))"
    using i by (simp_all add: wf_state_def)
  note sc = step_channel [OF i sameChan_refl [of i "gangPass a"]]
  note v = chanTick_view [OF len]
  show "msgsOf (midiModeOf a) i (snd (step a)) = snd (viewTick i (viewOf (gangPass a) i))"
    using sc v by simp
  have "viewOf (fst (step a)) i = viewOf (fst (chanTick (gangPass a) i)) i"
    using sameChan_fields [OF conjunct1 [OF sc]]
    by (simp add: viewOf_def midiModeOf_def)
  then show "viewOf (fst (step a)) i = fst (viewTick i (viewOf (gangPass a) i))"
    using v by simp
qed

text \<open>Several ticks without leaders, for channel \<open>i\<close>.\<close>

lemma runTicks_view:
  assumes "i < 32" and "noLeaders a" and "wf_state a"
  shows "map (msgsOf (midiModeOf a) i) (runTicks n a) = viewRun n i (viewOf a i)"
proof -
  have len: "i < length (lastMidiValues a)" "i < length (endpointHoldCounter a)"
    using assms by (simp_all add: wf_state_def)
  show ?thesis
    using runTicks_channel [OF assms(1,2) sameChan_refl] chanRun_view [OF len] by simp
qed

lemma viewRun_numeral:
  "viewRun (numeral k) i c = snd (viewTick i c) # viewRun (pred_numeral k) i (fst (viewTick i c))"
  by (simp add: numeral_eq_Suc)

subsection \<open>Data bytes\<close>






lemma half14_data: "snd (snd (half14 ph i full)) \<le> 127"
  by (simp add: half14_def Let_def)

lemma half14_full: "half14 ph i 16383 = (176, if ph then u8 (int i + 32) else u8 (int i), 127)"
  by (simp add: half14_def Let_def u8_def statusByte_value drop_bit_eq_div)

lemma full14_one: "full14 1 = 16383"
  by (simp add: full14_def c_int_def Let_def)

lemma snapEndpoint_one: "snapEndpoint 1 = (1, True)"
  by (simp add: snapEndpoint_def Let_def)

lemmas view_eval = viewRun_numeral viewTick_def cvChanged_def cvCurrent_def applyDriftControl_def
  driftThreshold_def snapEndpoint_def full14_def half14_def u8_def c_int_def statusByte_value
  drop_bit_eq_div midiValue7_def snapToValueRange_def Let_def split_def

subsection \<open>Facts about the example states\<close>

lemma initState_wf: "wf_state initState"
  by (simp add: wf_state_def initState_def defaultParams_def kNumParameters_def)

lemma initState_noLeaders: "noLeaders initState"
  by (simp add: noLeaders_def initState_def defaultNoteSettings_def list_all_iff)



lemma exNumber_facts:
  "wf_state exNumber" "noLeaders exNumber" "midiModeOf exNumber = 1"
  "viewOf exNumber 0 = \<lparr>cvValue = 1, cvLast = 0, cvHold = 0, cvPhase = False,
      cvSettings = defaultNoteSettings, cvDrift = 0, cvMode = 1\<rparr>"
  using initState_wf initState_noLeaders
  by (simp_all add: exNumber_def wf_state_def noLeaders_def viewOf_def midiModeOf_def c_int_def
      initState_def defaultParams_def kParamMidiMode_def kParamDriftControl_def)

lemma exNote_facts:
  "wf_state exNote" "noLeaders exNote" "midiModeOf exNote = 1"
  "viewOf exNote 0 = \<lparr>cvValue = 1, cvLast = 0, cvHold = 0, cvPhase = False,
      cvSettings = defaultNoteSettings\<lparr>displayMode := 1\<rparr>, cvDrift = 0, cvMode = 1\<rparr>"
  using initState_wf
  by (simp_all add: exNote_def wf_state_def noLeaders_def viewOf_def midiModeOf_def c_int_def
      initState_def defaultParams_def kParamMidiMode_def kParamDriftControl_def
      defaultNoteSettings_def list_all_iff nth_list_update)

lemma exNear1_facts:
  "wf_state exNear1" "noLeaders exNear1" "midiModeOf exNear1 = 1"
  "viewOf exNear1 0 = \<lparr>cvValue = 0.995, cvLast = -1, cvHold = 0, cvPhase = False,
      cvSettings = defaultNoteSettings, cvDrift = 0, cvMode = 1\<rparr>"
  using initState_wf initState_noLeaders
  by (simp_all add: exNear1_def wf_state_def noLeaders_def viewOf_def midiModeOf_def c_int_def
      initState_def defaultParams_def kParamMidiMode_def kParamDriftControl_def)

lemma defaultNote_top: "snapToActiveNote 1 (defaultNoteSettings\<lparr>displayMode := m\<rparr>) = 96"
proof -
  have "filter (\<lambda>midi. replicate 12 (1::nat) ! (midi mod 12) = 1) [36..<97] = [36..<97]"
    by (rule filter_True) simp
  then have "activeNotes (defaultNoteSettings\<lparr>displayMode := m\<rparr>) = map int [36..<97]"
    by (simp add: activeNotes_def defaultNoteSettings_def)
  then show ?thesis
    by (simp add: snapToActiveNote_def Let_def)
qed

subsection \<open>7-bit mode\<close>

lemma viewOf_gangPass:
  "viewOf (gangPass a) i = (viewOf a i)\<lparr>cvValue := internalFaders (gangPass a) ! i\<rparr>"
  using gangFrame_fields [OF gangPass_frame [of a]]
  by (simp add: viewOf_def midiModeOf_def)





subsection \<open>Repeated equal input\<close>







subsection \<open>14-bit mode\<close>

lemma drift_zero_one: "applyDriftControl 1 0 dl = 1" "applyDriftControl 1 1 dl = 1"
  by (simp_all add: applyDriftControl_def driftThreshold_def)

lemma step_view_noLeaders:
  assumes "i < 32" and "wf_state a" and "noLeaders a"
  shows "viewOf (fst (step a)) i = fst (viewTick i (viewOf a i))"
    and "msgsOf (midiModeOf a) i (snd (step a)) = snd (viewTick i (viewOf a i))"
    and "wf_state (fst (step a))" and "noLeaders (fst (step a))"
    and "midiModeOf (fst (step a)) = midiModeOf a"
  using step_view [OF assms(1,2)] step_static [OF assms(1), of a] assms
  by (simp_all add: gangPass_noLeaders)

text \<open>
  C5, as stated, fails for a channel in Note mode. With channel 0 in Note mode over the
  default note range, last sent as 0 and now held at 1, the two ticks send MSB 96 (the top
  note) and LSB 0, not 127 and 127.
\<close>

theorem runTicks_14bit_note_mode_counterexample:
  "midiModeOf exNote = 1 \<and> lastMidiValues exNote ! 0 = 0 \<and> internalFaders exNote ! 0 = 1
   \<and> map (msgs14 0) (runTicks 2 exNote) = [[(176, 0, 96)], [(176, 32, 0)]]"
proof -
  have "map (msgsOf (midiModeOf exNote) 0) (runTicks 2 exNote) = viewRun 2 0 (viewOf exNote 0)"
    by (rule runTicks_view) (simp_all add: exNote_facts)
  moreover have "msgsOf (midiModeOf exNote) 0 = msgs14 0"
    by (rule ext) (simp add: msgsOf_def exNote_facts)
  moreover have "viewRun 2 0 (viewOf exNote 0) = [[(176, 0, 96)], [(176, 32, 0)]]"
    by (simp add: exNote_facts viewRun_numeral viewTick_def cvChanged_def cvCurrent_def
        applyDriftControl_def defaultNote_top half14_def u8_def statusByte_value
        drop_bit_eq_div push_bit_eq_mult Let_def)
  moreover have "lastMidiValues exNote ! 0 = 0" "internalFaders exNote ! 0 = 1"
    by (simp_all add: exNote_def initState_def)
  ultimately show ?thesis by (simp add: exNote_facts)
qed

lemma viewOf_sel:
  "cvValue (viewOf a i) = internalFaders a ! i" "cvLast (viewOf a i) = lastMidiValues a ! i"
  "cvHold (viewOf a i) = endpointHoldCounter a ! i" "cvPhase (viewOf a i) = send14bitPhase a"
  "cvSettings (viewOf a i) = faderNoteSettings a ! i" "cvMode (viewOf a i) = midiModeOf a"
  "cvDrift (viewOf a i) = param_v a ! kParamDriftControl"
  by (simp_all add: viewOf_def)

lemma viewTick14_sel:
  assumes "cvMode c \<noteq> 0"
  shows "cvLast (fst (viewTick i c)) = (if cvChanged c \<and> cvPhase c then cvCurrent c else cvLast c)"
    and "cvPhase (fst (viewTick i c)) = (\<not> cvPhase c)"
  using assms by (simp_all add: viewTick_def Let_def)

lemma viewTick_value: "cvValue (fst (viewTick i c)) = cvValue c"
  by (simp add: viewTick_def Let_def)

lemma chanView_value_same: "cvValue c = x \<Longrightarrow> c\<lparr>cvValue := x\<rparr> = c"
  by (cases c) simp

text \<open>
  C5, amended. In 14-bit mode: the phase flag is toggled by every tick; when the value of
  channel \<open>i\<close> (after gang propagation and drift lock) has changed or nothing was sent yet,
  the tick sends exactly one message for the channel, on controller \<open>i + 32\<close> (LSB) when
  the phase flag is set and on controller \<open>i\<close> (MSB) otherwise; the last sent value of the
  channel changes only on such a tick with the phase flag set. For a channel in Number mode,
  last sent as 0 and held at 1 (after gang propagation) on two consecutive ticks, the two
  ticks send one MSB message with data 127 and one LSB message with data 127, in the order
  the phase gives, and the last sent value becomes 1 on the LSB tick.
\<close>

theorem step_14bit_pairing:
  assumes "i < 32" and "wf_state a" and "midiModeOf a \<noteq> 0"
  shows "send14bitPhase (fst (step a)) = (\<not> send14bitPhase a)
     \<and> (cvChanged (viewOf (gangPass a) i) \<longrightarrow>
          (\<exists>d\<le>127. msgs14 i (snd (step a))
                      = [(0xB0, if send14bitPhase a then i + 32 else i, d)]))
     \<and> lastMidiValues (fst (step a)) ! i
          = (if cvChanged (viewOf (gangPass a) i) \<and> send14bitPhase a
             then cvCurrent (viewOf (gangPass a) i) else lastMidiValues a ! i)
     \<and> (displayMode (faderNoteSettings a ! i) \<noteq> 1 \<and> lastMidiValues a ! i = 0
          \<and> internalFaders (gangPass a) ! i = 1
          \<and> internalFaders (gangPass (fst (step a))) ! i = 1 \<longrightarrow>
          map (msgs14 i) (runTicks 2 a)
            = (if send14bitPhase a then [[(0xB0, i + 32, 127)], [(0xB0, i, 127)]]
               else [[(0xB0, i, 127)], [(0xB0, i + 32, 127)]])
          \<and> lastMidiValues (fst (step a)) ! i = (if send14bitPhase a then 1 else 0)
          \<and> lastMidiValues (fst (step (fst (step a)))) ! i = 1)"
proof -
  let ?c = "viewOf (gangPass a) i"
  have m: "msgs14 i (snd (step a)) = snd (viewTick i ?c)"
    using step_view(1) [OF assms(1,2)] assms(3) by (simp add: msgsOf_def)
  have v: "viewOf (fst (step a)) i = fst (viewTick i ?c)"
    by (rule step_view(2) [OF assms(1,2)])
  have c: "cvMode ?c \<noteq> 0" "cvPhase ?c = send14bitPhase a" "cvLast ?c = lastMidiValues a ! i"
    "cvSettings ?c = faderNoteSettings a ! i"
    using assms(3) by (simp_all add: viewOf_gangPass viewOf_sel)
  have p1: "send14bitPhase (fst (step a)) = (\<not> send14bitPhase a)"
  proof -
    have "send14bitPhase (fst (step a)) = cvPhase (viewOf (fst (step a)) i)"
      by (simp add: viewOf_sel)
    also have "\<dots> = cvPhase (fst (viewTick i ?c))"
      using v by simp
    finally show ?thesis
      using c by (simp add: viewTick14_sel)
  qed
  have p2: "\<exists>d\<le>127. msgs14 i (snd (step a)) = [(0xB0, if send14bitPhase a then i + 32 else i, d)]"
    if "cvChanged ?c"
  proof -
    let ?full = "if displayMode (cvSettings ?c) = 1
                 then push_bit 7 (int (u8 (snapToActiveNote (cvCurrent ?c) (cvSettings ?c))))
                 else full14 (fst (snapEndpoint (cvCurrent ?c)))"
    have "msgs14 i (snd (step a)) = [half14 (send14bitPhase a) i ?full]"
      using m c that by (simp add: viewTick_def Let_def)
    then obtain full where "msgs14 i (snd (step a)) = [half14 (send14bitPhase a) i full]"
      by blast
    moreover have "half14 (send14bitPhase a) i full
        = (0xB0, if send14bitPhase a then i + 32 else i, snd (snd (half14 (send14bitPhase a) i full)))"
      using assms(1)
      by (simp add: half14_def Let_def statusByte_value u8_small u8_plus32_small)
    ultimately show ?thesis
      using half14_data [of "send14bitPhase a" i full] by metis
  qed
  have p3: "lastMidiValues (fst (step a)) ! i
          = (if cvChanged ?c \<and> send14bitPhase a then cvCurrent ?c else lastMidiValues a ! i)"
  proof -
    have "lastMidiValues (fst (step a)) ! i = cvLast (viewOf (fst (step a)) i)"
      by (simp add: viewOf_sel)
    also have "\<dots> = cvLast (fst (viewTick i ?c))"
      using v by simp
    finally show ?thesis
      using c by (simp add: viewTick14_sel)
  qed
  have p4: "map (msgs14 i) (runTicks 2 a)
            = (if send14bitPhase a then [[(0xB0, i + 32, 127)], [(0xB0, i, 127)]]
               else [[(0xB0, i, 127)], [(0xB0, i + 32, 127)]])
          \<and> lastMidiValues (fst (step a)) ! i = (if send14bitPhase a then 1 else 0)
          \<and> lastMidiValues (fst (step (fst (step a)))) ! i = 1"
    if num: "displayMode (faderNoteSettings a ! i) \<noteq> 1"
      and last: "lastMidiValues a ! i = 0" and val: "internalFaders (gangPass a) ! i = 1"
      and val2: "internalFaders (gangPass (fst (step a))) ! i = 1"
  proof -
    let ?a1 = "fst (step a)"
    note st = step_static [OF assms(1), of a]
    have w1: "wf_state ?a1" using st(6) assms(2) by simp
    have m1: "midiModeOf ?a1 \<noteq> 0" using st(4) assms(3) by simp
    have f: "cvMode ?c \<noteq> 0" "cvLast ?c = 0" "cvValue ?c = 1"
      "displayMode (cvSettings ?c) \<noteq> 1" "cvPhase ?c = send14bitPhase a"
      using c num last val by (simp_all add: viewOf_sel)
    have t1: "viewTick i ?c
        = (?c\<lparr>cvLast := (if cvPhase ?c then 1 else 0), cvHold := 3, cvPhase := \<not> cvPhase ?c\<rparr>,
           [half14 (cvPhase ?c) i 16383])"
      using f by (simp add: viewTick_def cvChanged_def cvCurrent_def drift_zero_one
          snapEndpoint_one full14_one Let_def)
    have t2: "snd (viewTick i (fst (viewTick i ?c))) = [half14 (\<not> cvPhase ?c) i 16383]
        \<and> cvLast (fst (viewTick i (fst (viewTick i ?c)))) = 1"
      using f by (simp add: t1 viewTick_def cvChanged_def cvCurrent_def drift_zero_one
          snapEndpoint_one full14_one Let_def)
    have "cvValue (viewOf ?a1 i) = 1"
      using v f(3) by (simp add: viewTick_value)
    then have c1: "viewOf (gangPass ?a1) i = fst (viewTick i ?c)"
      using v val2 by (simp add: viewOf_gangPass [of ?a1] chanView_value_same)
    have m2: "msgs14 i (snd (step ?a1)) = snd (viewTick i (fst (viewTick i ?c)))"
      using step_view(1) [OF assms(1) w1] m1 c1 by (simp add: msgsOf_def)
    have l1: "lastMidiValues ?a1 ! i = cvLast (fst (viewTick i ?c))"
      using v viewOf_sel(2) [of ?a1 i] by simp
    have l2: "lastMidiValues (fst (step ?a1)) ! i = cvLast (fst (viewTick i (fst (viewTick i ?c))))"
      using step_view(2) [OF assms(1) w1] c1 viewOf_sel(2) [of "fst (step ?a1)" i] by simp
    show ?thesis
      using m m2 l1 l2 t1 t2 f(5) assms(1)
      by (simp add: numeral_2_eq_2 half14_full u8_small u8_plus32_small)
  qed
  show ?thesis
    using p1 p2 p3 p4 by blast
qed

theorem step_14bit_pairing_witness:
  "send14bitPhase (fst (step exNumber))
   \<and> map (msgs14 0) (runTicks 2 exNumber) = [[(176, 0, 127)], [(176, 32, 127)]]
   \<and> lastMidiValues (fst (step exNumber)) ! 0 = 0
   \<and> lastMidiValues (fst (step (fst (step exNumber)))) ! 0 = 1"
proof -
  have v: "send14bitPhase exNumber = False" "lastMidiValues exNumber ! 0 = 0"
    "internalFaders exNumber ! 0 = 1" "displayMode (faderNoteSettings exNumber ! 0) \<noteq> 1"
    by (simp_all add: exNumber_def initState_def defaultNoteSettings_def)
  have m: "midiModeOf exNumber \<noteq> 0" by (simp add: exNumber_facts)
  note st = step_static [of 0 exNumber]
  have g1: "internalFaders (gangPass exNumber) ! 0 = 1"
    using v by (simp add: gangPass_noLeaders exNumber_facts)
  have "noLeaders (fst (step exNumber))"
    using st(5) by (simp add: exNumber_facts)
  then have g2: "internalFaders (gangPass (fst (step exNumber))) ! 0 = 1"
    using st(3) g1 by (simp add: gangPass_noLeaders)
  show ?thesis
    using step_14bit_pairing [of 0 exNumber, OF _ exNumber_facts(1) m] v g1 g2
    by simp
qed

subsection \<open>Endpoint hold\<close>

text \<open>
  C6. The hold branch re-sends the stored last value without the deadzone snap that the
  first transmission applied. With channel 0 held at 0.995 in 14-bit Number mode, the first
  two ticks send the halves of the endpoint 16383 (MSB 127, LSB 127) and set the hold
  counter; the three hold ticks then send the halves of 16301, so the LSB of the second
  hold tick is 45 where the endpoint message has 127.
\<close>

theorem runTicks_hold_resends_unsnapped:
  "midiModeOf exNear1 = 1 \<and> internalFaders exNear1 ! 0 = 0.995
   \<and> displayMode (faderNoteSettings exNear1 ! 0) = 0
   \<and> map (msgs14 0) (runTicks 6 exNear1)
       = [[(176, 0, 127)], [(176, 32, 127)], [(176, 0, 127)], [(176, 32, 45)], [(176, 0, 127)], []]
   \<and> half14 True 0 (full14 (fst (snapEndpoint 0.995))) = (176, 32, 127)"
proof -
  have "map (msgsOf (midiModeOf exNear1) 0) (runTicks 6 exNear1) = viewRun 6 0 (viewOf exNear1 0)"
    by (rule runTicks_view) (simp_all add: exNear1_facts)
  moreover have "msgsOf (midiModeOf exNear1) 0 = msgs14 0"
    by (rule ext) (simp add: msgsOf_def exNear1_facts)
  moreover have "viewRun 6 0 (viewOf exNear1 0)
       = [[(176, 0, 127)], [(176, 32, 127)], [(176, 0, 127)], [(176, 32, 45)], [(176, 0, 127)], []]"
    by (simp add: exNear1_facts view_eval defaultNoteSettings_def)
  moreover have "internalFaders exNear1 ! 0 = 0.995"
    "displayMode (faderNoteSettings exNear1 ! 0) = 0"
    by (simp_all add: exNear1_def initState_def defaultNoteSettings_def)
  moreover have "half14 True 0 (full14 (fst (snapEndpoint 0.995))) = (176, 32, 127)"
    by (simp add: view_eval)
  ultimately show ?thesis by (simp add: exNear1_facts)
qed

subsection \<open>Facts about the pickup resolver\<close>

lemma nth_update_cases: "xs[i := x] ! j = (if j = i \<and> i < length xs then x else xs ! j)"
  by (cases "i < length xs") (simp_all add: nth_list_update list_update_beyond)

lemma deadzone_idem: "deadzone (deadzone x) = deadzone x"
  by (simp add: deadzone_def)

lemma physicalSample_props:
  "0 \<le> physicalSample raw" "physicalSample raw \<le> 1"
  "deadzone (physicalSample raw) = physicalSample raw"
  by (simp_all add: physicalSample_def deadzone_def Let_def)

lemma scaledTarget_range: "0 \<le> scaledTarget v p s \<and> scaledTarget v p s \<le> 1"
  unfolding scaledTarget_def Let_def by (rule clamp01_range)

text \<open>
  While the coarse mismatch is at least 2, the sample differs from the held value, and the
  slew step in its direction stays inside \<open>[0,1]\<close>: the deadzone decides the direction at the
  edges.
\<close>

lemma slew_bounds:
  assumes cur: "0 \<le> cur" "cur \<le> 1" and v: "deadzone v = v"
    and far: "2 \<le> \<bar>coarse v - coarse (deadzone cur)\<bar>"
  shows "v \<noteq> cur"
    and "v - cur > 0 \<Longrightarrow> cur + 0.005333 \<le> 1"
    and "\<not> v - cur > 0 \<Longrightarrow> 0 \<le> cur - 0.005333"
proof -
  show "v \<noteq> cur"
    using v far by auto
  show "cur + 0.005333 \<le> 1" if up: "v - cur > 0"
  proof (rule ccontr)
    assume "\<not> cur + 0.005333 \<le> 1"
    then have c: "cur > 0.97" by simp
    then have "deadzone cur = 1" by (simp add: deadzone_def)
    moreover have "v > 0.97" using up c by simp
    then have "v = 1" using v by (simp add: deadzone_def split: if_splits)
    ultimately show False using far by simp
  qed
  show "0 \<le> cur - 0.005333" if down: "\<not> v - cur > 0"
  proof (rule ccontr)
    assume "\<not> 0 \<le> cur - 0.005333"
    then have c: "cur < 0.03" by simp
    then have "deadzone cur = 0" by (simp add: deadzone_def)
    moreover have "v < 0.03" using down c by simp
    then have "v = 0" using v by (simp add: deadzone_def split: if_splits)
    ultimately show False using far by simp
  qed
qed

lemma fadersInRange_update:
  assumes "fadersInRange a" and "internalFaders a' = (internalFaders a)[idx := x]"
    and "idx < length (internalFaders a) \<Longrightarrow> 0 \<le> x \<and> x \<le> 1"
  shows "fadersInRange a'"
  using assms by (auto simp add: fadersInRange_def nth_update_cases)

lemma fadersInRange_same:
  "fadersInRange a \<Longrightarrow> internalFaders a' = internalFaders a \<Longrightarrow> fadersInRange a'"
  by (simp add: fadersInRange_def)

lemma absoluteBranch_range:
  assumes "fadersInRange a" and "0 \<le> v" and "v \<le> 1"
  shows "fadersInRange (absoluteBranch a idx v cur m mv sd)"
proof -
  have "internalFaders (absoluteBranch a idx v cur m mv sd) = internalFaders a
      \<or> internalFaders (absoluteBranch a idx v cur m mv sd) = (internalFaders a)[idx := v]"
    by (simp add: absoluteBranch_def Let_def)
  then show ?thesis
    using assms fadersInRange_update [of a _ idx v] fadersInRange_same [of a] by blast
qed

lemma scaledBranch_range:
  assumes "fadersInRange a" and "0 \<le> v" and "v \<le> 1"
  shows "fadersInRange (scaledBranch a idx v)"
proof -
  have "internalFaders (scaledBranch a idx v)
          = (internalFaders a)[idx := scaledTarget v (pickupPivot a ! idx) (pickupStartValue a ! idx)]
      \<or> internalFaders (scaledBranch a idx v) = (internalFaders a)[idx := v]"
    by (simp add: scaledBranch_def Let_def)
  then show ?thesis
    using assms fadersInRange_update [of a _ idx] scaledTarget_range by blast
qed

lemma catchBranch_faders:
  "internalFaders (catchBranch a idx v cur m mv sd) =
     (internalFaders a)
       [idx := (if mv \<and> sd \<and> m < 50 then v
                else if m < 25 then
                  (if m < 2 then v
                   else if v - cur > 0 then internalFaders a ! idx + 0.005333
                   else internalFaders a ! idx - 0.005333)
                else scaledTarget v (pickupPivot a ! idx) (pickupStartValue a ! idx))]"
  by (simp add: catchBranch_def Let_def)

lemma catchBranch_range:
  assumes r: "fadersInRange a" and v: "0 \<le> v" "v \<le> 1" "deadzone v = v"
    and len: "length (internalFaders a) = 32"
    and cur: "cur = internalFaders a ! idx"
    and m: "m = \<bar>coarse v - coarse (deadzone cur)\<bar>"
  shows "fadersInRange (catchBranch a idx v cur m mv sd)"
proof (rule fadersInRange_update [OF r catchBranch_faders])
  assume "idx < length (internalFaders a)"
  then have c: "0 \<le> cur" "cur \<le> 1"
    using r len cur by (simp_all add: fadersInRange_def)
  have up: "0 \<le> cur + 0.005333 \<and> cur + 0.005333 \<le> 1" if "\<not> m < 2" "v - cur > 0"
    using slew_bounds(2) [OF c v(3)] that m c by simp
  have down: "0 \<le> cur - 0.005333 \<and> cur - 0.005333 \<le> 1" if "\<not> m < 2" "\<not> v - cur > 0"
    using slew_bounds(3) [OF c v(3)] that m c by simp
  show "0 \<le> (if mv \<and> sd \<and> m < 50 then v
                else if m < 25 then
                  (if m < 2 then v
                   else if v - cur > 0 then internalFaders a ! idx + 0.005333
                   else internalFaders a ! idx - 0.005333)
                else scaledTarget v (pickupPivot a ! idx) (pickupStartValue a ! idx))
      \<and> (if mv \<and> sd \<and> m < 50 then v
                else if m < 25 then
                  (if m < 2 then v
                   else if v - cur > 0 then internalFaders a ! idx + 0.005333
                   else internalFaders a ! idx - 0.005333)
                else scaledTarget v (pickupPivot a ! idx) (pickupStartValue a ! idx)) \<le> 1"
    using v(1,2) up down scaledTarget_range [of v "pickupPivot a ! idx" "pickupStartValue a ! idx"]
      cur
    by (simp split: if_split)
qed

text \<open>What the head and the tail of \<open>pickupResolve\<close> leave alone.\<close>

lemma trackPhysical_fields:
  "internalFaders (trackPhysical a idx v) = internalFaders a"
  "inPickupMode (trackPhysical a idx v) = inPickupMode a"
  "inSlewMode (trackPhysical a idx v) = inSlewMode a"
  "pickupSettleFrames (trackPhysical a idx v) = pickupSettleFrames a"
  "pickupPivot (trackPhysical a idx v) = pickupPivot a"
  "pickupStartValue (trackPhysical a idx v) = pickupStartValue a"
  "param_v (trackPhysical a idx v) = param_v a"
  by (simp_all add: trackPhysical_def Let_def)

lemma finishResolve_fields:
  "internalFaders (finishResolve a idx v) = internalFaders a"
  "inPickupMode (finishResolve a idx v) = inPickupMode a"
  "inSlewMode (finishResolve a idx v) = inSlewMode a"
  "pickupSettleFrames (finishResolve a idx v) = pickupSettleFrames a"
  "pickupPivot (finishResolve a idx v) = pickupPivot a"
  "pickupStartValue (finishResolve a idx v) = pickupStartValue a"
  "param_v (finishResolve a idx v) = param_v a"
  by (simp_all add: finishResolve_def Let_def)

lemma pickupResolve_absolute:
  "\<not> inPickupMode a ! idx \<Longrightarrow>
   pickupResolve a idx v pm =
     finishResolve (absoluteBranch (trackPhysical a idx v) idx v (internalFaders a ! idx)
        (coarseMismatch a idx v) (movingContinuously a idx v) (sameDirection a idx v)) idx v"
  by (simp add: pickupResolve_def Let_def trackPhysical_fields)

lemma pickupResolve_catch:
  "inPickupMode a ! idx \<Longrightarrow> pm = 1 \<Longrightarrow>
   pickupResolve a idx v pm =
     finishResolve (catchBranch (trackPhysical a idx v) idx v (internalFaders a ! idx)
        (coarseMismatch a idx v) (movingContinuously a idx v) (sameDirection a idx v)) idx v"
  by (simp add: pickupResolve_def Let_def trackPhysical_fields)

lemma pickupResolve_scaled:
  "inPickupMode a ! idx \<Longrightarrow> pm \<noteq> 1 \<Longrightarrow>
   pickupResolve a idx v pm = finishResolve (scaledBranch (trackPhysical a idx v) idx v) idx v"
  by (simp add: pickupResolve_def Let_def trackPhysical_fields)

lemma pickupResolve_range:
  assumes r: "fadersInRange a" and v: "0 \<le> v" "v \<le> 1" "deadzone v = v"
    and len: "length (internalFaders a) = 32"
  shows "fadersInRange (pickupResolve a idx v pm)"
proof -
  let ?t = "trackPhysical a idx v"
  have r2: "fadersInRange ?t" "length (internalFaders ?t) = 32"
    "internalFaders a ! idx = internalFaders ?t ! idx"
    using r len by (simp_all add: trackPhysical_fields fadersInRange_def)
  have m: "coarseMismatch a idx v = \<bar>coarse v - coarse (deadzone (internalFaders a ! idx))\<bar>"
    by (simp add: coarseMismatch_def Let_def)
  have fin: "fadersInRange b \<Longrightarrow> fadersInRange (finishResolve b idx v)" for b
    by (simp add: fadersInRange_def finishResolve_fields)
  consider (ab) "\<not> inPickupMode a ! idx" | (ca) "inPickupMode a ! idx" "pm = 1"
    | (sc) "inPickupMode a ! idx" "pm \<noteq> 1"
    by blast
  then show ?thesis
  proof cases
    case ab
    show ?thesis
      unfolding pickupResolve_absolute [OF ab]
      by (rule fin, rule absoluteBranch_range [OF r2(1) v(1,2)])
  next
    case ca
    show ?thesis
      unfolding pickupResolve_catch [OF ca]
      by (rule fin, rule catchBranch_range [OF r2(1) v r2(2) r2(3) m])
  next
    case sc
    show ?thesis
      unfolding pickupResolve_scaled [OF sc]
      by (rule fin, rule scaledBranch_range [OF r2(1) v(1,2)])
  qed
qed

lemma wf_state_lens: "wf_state a = (lens a = replicate 14 32 @ [kNumParameters])"
  by (simp add: wf_state_def lens_def numeral_eq_Suc)

lemma branch_lens:
  "lens (absoluteBranch a idx v cur m mv sd) = lens a"
  "lens (catchBranch a idx v cur m mv sd) = lens a"
  "lens (scaledBranch a idx v) = lens a"
  "lens (trackPhysical a idx v) = lens a"
  "lens (finishResolve a idx v) = lens a"
  by (simp_all add: lens_def absoluteBranch_def catchBranch_def scaledBranch_def
      trackPhysical_def finishResolve_def Let_def)

lemma branch_params:
  "param_v (absoluteBranch a idx v cur m mv sd) = param_v a"
  "param_v (catchBranch a idx v cur m mv sd) = param_v a"
  "param_v (scaledBranch a idx v) = param_v a"
  by (simp_all add: absoluteBranch_def catchBranch_def scaledBranch_def Let_def)

lemma pickupResolve_static:
  "param_v (pickupResolve a idx v pm) = param_v a"
  "lens (pickupResolve a idx v pm) = lens a"
proof -
  consider (ab) "\<not> inPickupMode a ! idx" | (ca) "inPickupMode a ! idx" "pm = 1"
    | (sc) "inPickupMode a ! idx" "pm \<noteq> 1"
    by blast
  then show "param_v (pickupResolve a idx v pm) = param_v a"
  proof cases
    case ab
    show ?thesis unfolding pickupResolve_absolute [OF ab]
      by (simp add: finishResolve_fields branch_params trackPhysical_fields)
  next
    case ca
    show ?thesis unfolding pickupResolve_catch [OF ca]
      by (simp add: finishResolve_fields branch_params trackPhysical_fields)
  next
    case sc
    show ?thesis unfolding pickupResolve_scaled [OF sc]
      by (simp add: finishResolve_fields branch_params trackPhysical_fields)
  qed
  consider (ab) "\<not> inPickupMode a ! idx" | (ca) "inPickupMode a ! idx" "pm = 1"
    | (sc) "inPickupMode a ! idx" "pm \<noteq> 1"
    by blast
  then show "lens (pickupResolve a idx v pm) = lens a"
  proof cases
    case ab
    show ?thesis unfolding pickupResolve_absolute [OF ab] by (simp add: branch_lens)
  next
    case ca
    show ?thesis unfolding pickupResolve_catch [OF ca] by (simp add: branch_lens)
  next
    case sc
    show ?thesis unfolding pickupResolve_scaled [OF sc] by (simp add: branch_lens)
  qed
qed

lemma pickupResolve_wf: "wf_state a \<Longrightarrow> wf_state (pickupResolve a idx v pm)"
  by (simp add: wf_state_lens pickupResolve_static)

subsection \<open>Held values stay in range\<close>


lemma parameterChanged_inv:
  assumes "wf_state a" and "pageInRange a" and "fadersInRange a"
  shows "wf_state (parameterChanged a p) \<and> pageInRange (parameterChanged a p)
       \<and> fadersInRange (parameterChanged a p)"
proof (cases "p \<ge> kParamFader1 \<and> p \<le> kParamFader8")
  case False
  then have "parameterChanged a p = a" by (auto simp add: parameterChanged_def)
  then show ?thesis using assms by simp
next
  case True
  have len: "length (internalFaders a) = 32"
    using assms(1) by (simp add: wf_state_def)
  have "fadersInRange (pickupResolve a (faderChannel a p) (physicalSample (param_v a ! p)) (pickupModeOf a))"
    by (rule pickupResolve_range [OF assms(3) physicalSample_props len])
  then show ?thesis
    using True assms(1,2)
    by (simp add: parameterChanged_def Let_def pickupResolve_wf pickupResolve_static pageInRange_def)
qed

lemma step_inv:
  assumes "wf_state a" and "pageInRange a" and "fadersInRange a"
  shows "wf_state (fst (step a)) \<and> pageInRange (fst (step a)) \<and> fadersInRange (fst (step a))"
proof -
  note st = step_static [of 0 a]
  have "fadersInRange (gangPass a)"
    using gangPass_range [of a] assms(3) by (simp add: fadersInRange_def)
  then have "fadersInRange (fst (step a))"
    using st(3) by (simp add: fadersInRange_def)
  then show ?thesis
    using st assms by (simp add: pageInRange_def)
qed

lemma applyEvent_inv:
  assumes "wf_state a" and "pageInRange a" and "fadersInRange a"
  shows "wf_state (applyEvent e a) \<and> pageInRange (applyEvent e a) \<and> fadersInRange (applyEvent e a)"
proof (cases e)
  case Tick
  then show ?thesis using step_inv [OF assms] by simp
next
  case (Sample p raw)
  show ?thesis
  proof (cases "p \<le> kParamFader8")
    case False
    then show ?thesis using Sample assms by simp
  next
    case True
    let ?b = "a\<lparr>param_v := (param_v a)[p := raw]\<rparr>"
    have "wf_state ?b" "fadersInRange ?b"
      using assms by (simp_all add: wf_state_def fadersInRange_def)
    moreover have "pageInRange ?b"
      using assms(2) True by (simp add: pageInRange_def kParamFader8_def kParamPage_def)
    ultimately show ?thesis
      using Sample True parameterChanged_inv [of ?b p] by simp
  qed
qed

text \<open>
  C1. From a state whose arrays have their declared lengths, whose page parameter is in its
  declared range and whose held values lie in \<open>[0,1]\<close>, every sequence of samples on the
  fader parameters and of ticks leaves every held value in \<open>[0,1]\<close>; the sequence being
  arbitrary, this holds after each operation. The slew step of the Catch policy is not
  clamped by the code; it stays in range because the deadzone fixes its direction near the
  ends.
\<close>

theorem internalFaders_stay_in_range:
  assumes "wf_state a" and "pageInRange a" and "fadersInRange a"
  shows "fadersInRange (fold applyEvent evs a)"
proof -
  have "wf_state (fold applyEvent evs a) \<and> pageInRange (fold applyEvent evs a)
      \<and> fadersInRange (fold applyEvent evs a)"
    using assms
  proof (induction evs arbitrary: a)
    case Nil
    then show ?case by simp
  next
    case (Cons e evs)
    have "wf_state (applyEvent e a) \<and> pageInRange (applyEvent e a) \<and> fadersInRange (applyEvent e a)"
      by (rule applyEvent_inv) (use Cons.prems in simp_all)
    then show ?case using Cons.IH [of "applyEvent e a"] by simp
  qed
  then show ?thesis by simp
qed

theorem internalFaders_stay_in_range_witness:
  "wf_state initState \<and> pageInRange initState \<and> fadersInRange initState
   \<and> fadersInRange (fold applyEvent [Sample 0 8192, Tick, Sample 0 4000, Tick] initState)"
proof -
  have p: "pageInRange initState"
    by (simp add: pageInRange_def initState_def defaultParams_def kParamPage_def)
  have r: "fadersInRange initState"
    by (simp add: fadersInRange_def initState_def)
  show ?thesis
    using internalFaders_stay_in_range [OF initState_wf p r] initState_wf p r by blast
qed

subsection \<open>Entering pickup\<close>









subsection \<open>Catch policy: slew and snap\<close>







end
